theory Spec2Isabelle
  imports Main "HOL-Library.Multiset"
begin

section \<open>Strings and the Python built-ins the add-on relies on\<close>

text \<open>
  A Python string is modelled as a \<open>string\<close> whose characters are the code points below
  256. On these, \<open>str.strip\<close>, \<open>str.lower\<close> and \<open>int()\<close> are written out as the
  interpreter has them. \<open>float()\<close> and \<open>str.capitalize\<close>, whose results do not fit
  the model (a 64-bit float; an upper-case letter above 255), are taken as parameters.
\<close>

definition ord :: "char \<Rightarrow> nat" where
  "ord c = of_char c"

definition py_isspace :: "char \<Rightarrow> bool" where
  \<comment> \<open>\<open>c.isspace()\<close>: the white space \<open>str.strip\<close> and \<open>int()\<close> remove, which below 256 is
     U+0009 to U+000D, U+001C to U+0020, U+0085 and U+00A0\<close>
  "py_isspace c =
     ((9 \<le> ord c \<and> ord c \<le> 13) \<or> (28 \<le> ord c \<and> ord c \<le> 32) \<or> ord c = 133 \<or> ord c = 160)"

definition lstrip :: "string \<Rightarrow> string" where
  "lstrip s = dropWhile py_isspace s"

definition strip :: "string \<Rightarrow> string" where
  \<comment> \<open>\<open>s.strip()\<close>\<close>
  "strip s = rev (lstrip (rev (lstrip s)))"

definition lower_char :: "char \<Rightarrow> char" where
  \<comment> \<open>the upper-case letters below 256 are A to Z and U+00C0 to U+00DE without U+00D7\<close>
  "lower_char c =
     (if (65 \<le> ord c \<and> ord c \<le> 90) \<or> (192 \<le> ord c \<and> ord c \<le> 222 \<and> ord c \<noteq> 215)
      then char_of (ord c + 32) else c)"

definition lower :: "string \<Rightarrow> string" where
  \<comment> \<open>\<open>s.lower()\<close>\<close>
  "lower s = map lower_char s"

definition is_digit :: "char \<Rightarrow> bool" where
  "is_digit c = (48 \<le> ord c \<and> ord c \<le> 57)"

text \<open>
  The digits of an integer literal as \<open>int()\<close> reads them in base 10: digits, with single
  underscores allowed between two digits. The flag says whether the previous character
  was a digit. A literal of more than 4300 digits (the interpreter's default
  \<open>max_str_digits\<close>) is refused with \<open>ValueError\<close>.
\<close>

fun int_digits :: "nat \<Rightarrow> bool \<Rightarrow> string \<Rightarrow> nat option" where
  "int_digits acc prev [] = (if prev then Some acc else None)"
| "int_digits acc prev (c # cs) =
     (if is_digit c then int_digits (acc * 10 + (ord c - 48)) True cs
      else if c = CHR ''_'' \<and> prev then
        (case cs of [] \<Rightarrow> None
         | d # _ \<Rightarrow> if is_digit d then int_digits acc False cs else None)
      else None)"

definition max_str_digits :: nat where
  "max_str_digits = 4300"

definition int_literal :: "string \<Rightarrow> nat option" where
  "int_literal ds =
     (case int_digits 0 False ds of
        None \<Rightarrow> None
      | Some v \<Rightarrow> if length (filter is_digit ds) > max_str_digits then None else Some v)"

definition py_int :: "string \<Rightarrow> int option" where
  \<comment> \<open>\<open>int(text)\<close>; \<open>None\<close> is \<open>ValueError\<close>\<close>
  "py_int s =
     (case strip s of
        [] \<Rightarrow> None
      | c # cs \<Rightarrow>
          if c = CHR ''-'' then map_option (\<lambda>n. - int n) (int_literal cs)
          else if c = CHR ''+'' then map_option int (int_literal cs)
          else map_option int (int_literal (c # cs)))"

section \<open>Dictionaries in insertion order\<close>

type_synonym 'v dict = "(string \<times> 'v) list"

fun dict_set :: "'v dict \<Rightarrow> string \<Rightarrow> 'v \<Rightarrow> 'v dict" where
  \<comment> \<open>\<open>d[k] = v\<close>: an existing key keeps its place, a new key goes last\<close>
  "dict_set [] k v = [(k, v)]"
| "dict_set ((k', v') # d) k v =
     (if k' = k then (k, v) # d else (k', v') # dict_set d k v)"

definition dict_get :: "'v dict \<Rightarrow> string \<Rightarrow> 'v option" where
  \<comment> \<open>\<open>d.get(k)\<close>\<close>
  "dict_get d k = map_of d k"

definition dict_update :: "'v dict \<Rightarrow> 'v dict \<Rightarrow> 'v dict" where
  \<comment> \<open>\<open>d.update(other)\<close>\<close>
  "dict_update d other = foldl (\<lambda>acc (k, v). dict_set acc k v) d other"

definition dict_keys :: "'v dict \<Rightarrow> string list" where
  "dict_keys d = map fst d"

section \<open>Element trees and structured values\<close>

text \<open>
  An \<open>xml.etree.ElementTree.Element\<close>: tag, attributes, the text before the first child
  (\<open>None\<close> when there is none) and the child elements. The tail text is never read by
  the add-on.
\<close>

datatype element =
  Element (tag: string) (attrib: "string dict") (etext: "string option") (children: "element list")

text \<open>
  The values the add-on builds and serialises with \<open>json.dumps\<close>. The type \<open>'f\<close> stands
  for Python's 64-bit \<open>float\<close>.
\<close>

datatype 'f json =
  JNone
| JInt int
| JFloat 'f
| JStr string
| JList "'f json list"
| JDict "'f json dict"

subsection \<open>xml_to_json\<close>

definition add_child :: "'f json dict \<Rightarrow> string \<Rightarrow> 'f json \<Rightarrow> 'f json dict" where
  \<comment> \<open>the body of the loop over the children (lines 89-96)\<close>
  "add_child child_dict t child_data =
     (case dict_get child_dict t of
        Some (JList xs) \<Rightarrow> dict_set child_dict t (JList (xs @ [child_data]))
      | Some v \<Rightarrow> dict_set child_dict t (JList [v, child_data])
      | None \<Rightarrow> dict_set child_dict t child_data)"

definition build_children :: "(string \<times> 'f json) list \<Rightarrow> 'f json dict" where
  \<comment> \<open>the loop over the children (lines 86-96), given each child's tag and converted value\<close>
  "build_children ps = foldl (\<lambda>d (ct, child_data). add_child d ct child_data) [] ps"

definition coerce_text :: "(string \<Rightarrow> 'f option) \<Rightarrow> string \<Rightarrow> 'f json" where
  \<comment> \<open>lines 105-111: \<open>int(text)\<close>, on \<open>ValueError\<close> \<open>float(text)\<close>, on \<open>ValueError\<close> the text\<close>
  "coerce_text py_float txt =
     (case py_int txt of
        Some i \<Rightarrow> JInt i
      | None \<Rightarrow> (case py_float txt of Some f \<Rightarrow> JFloat f | None \<Rightarrow> JStr txt))"

fun element_to_dict :: "(string \<Rightarrow> 'f option) \<Rightarrow> element \<Rightarrow> 'f json" where
  "element_to_dict py_float (Element t attrs txt cs) =
     (let node0 = dict_update [] (map (\<lambda>(k, v). (CHR ''@'' # k, JStr v)) attrs);
          child_dict = build_children (map (\<lambda>c. (tag c, element_to_dict py_float c)) cs);
          node = (if cs \<noteq> [] then dict_update node0 child_dict else node0)
      in case txt of
           None \<Rightarrow> (if node \<noteq> [] then JDict node else JNone)
         | Some s \<Rightarrow>
             if strip s \<noteq> [] then
               (if node = [] then coerce_text py_float (strip s)
                else JDict (dict_set node ''#text'' (JStr (strip s))))
             else (if node \<noteq> [] then JDict node else JNone))"

definition xml_to_json ::
  "(string \<Rightarrow> string + element) \<Rightarrow> (string \<Rightarrow> 'f option) \<Rightarrow> string \<Rightarrow> string \<Rightarrow> string
     \<Rightarrow> 'f json dict" where
  \<comment> \<open>\<open>fromstring\<close> is \<open>ET.fromstring\<close>: \<open>Inl msg\<close> is \<open>ET.ParseError\<close> with \<open>str(e) = msg\<close>\<close>
  "xml_to_json fromstring py_float xml_text endpoint_name host =
     (let result = [(''endpoint'', JStr endpoint_name), (''host'', JStr host)]
      in case fromstring xml_text of
           Inr root \<Rightarrow>
             dict_set result ''data'' (JDict [(tag root, element_to_dict py_float root)])
         | Inl e \<Rightarrow> dict_set result ''error'' (JStr (''XML parsing failed: '' @ e)))"

subsection \<open>xml_to_metrics\<close>

definition metric_path_of :: "string \<Rightarrow> string \<Rightarrow> string" where
  \<comment> \<open>line 160\<close>
  "metric_path_of parent_path t = (if parent_path \<noteq> [] then parent_path @ ''.'' @ t else t)"

definition record_metric ::
  "(string \<Rightarrow> 'f option) \<Rightarrow> 'f json dict \<Rightarrow> element \<Rightarrow> string \<Rightarrow> 'f json dict" where
  \<comment> \<open>lines 163-172\<close>
  "record_metric py_float metrics_data child metric_path =
     (case etext child of
        None \<Rightarrow> metrics_data
      | Some s \<Rightarrow>
          if strip s \<noteq> [] then
            (case py_float (strip s) of
               Some numeric_value \<Rightarrow>
                 dict_set metrics_data (''metric_name:'' @ metric_path) (JFloat numeric_value)
             | None \<Rightarrow> metrics_data)
          else metrics_data)"

fun extract_metrics ::
  "(string \<Rightarrow> 'f option) \<Rightarrow> 'f json dict \<Rightarrow> element \<Rightarrow> string \<Rightarrow> 'f json dict" where
  "extract_metrics py_float metrics_data (Element t attrs txt cs) parent_path =
     foldl (\<lambda>m child.
              let metric_path = metric_path_of parent_path (tag child);
                  m1 = record_metric py_float m child metric_path
              in if children child \<noteq> [] then extract_metrics py_float m1 child metric_path
                 else m1)
       metrics_data cs"

definition xml_to_metrics ::
  "(string \<Rightarrow> string + element) \<Rightarrow> (string \<Rightarrow> 'f option) \<Rightarrow> string \<Rightarrow> string \<Rightarrow> string
     \<Rightarrow> 'f json dict" where
  "xml_to_metrics fromstring py_float xml_text endpoint_name host =
     (let metrics_data = [(''endpoint'', JStr endpoint_name), (''host'', JStr host)]
      in case fromstring xml_text of
           Inr root \<Rightarrow> extract_metrics py_float metrics_data root []
         | Inl e \<Rightarrow> metrics_data)"

section \<open>The ElementTree queries the handlers use\<close>

fun iter_all :: "element \<Rightarrow> element list" where
  \<comment> \<open>\<open>elem.iter()\<close>: the element and everything below it, in document order\<close>
  "iter_all (Element t attrs txt cs) = Element t attrs txt cs # concat (map iter_all cs)"

definition iter_tag :: "string \<Rightarrow> element \<Rightarrow> element list" where
  \<comment> \<open>\<open>elem.iter(tag)\<close>\<close>
  "iter_tag t e = filter (\<lambda>x. tag x = t) (iter_all e)"

definition findtext :: "element \<Rightarrow> string \<Rightarrow> string \<Rightarrow> string" where
  \<comment> \<open>\<open>elem.findtext(tag, default)\<close>: the text of the first child with that tag, the empty
     string when that child has no text, the default when there is no such child\<close>
  "findtext e t dflt =
     (case find (\<lambda>c. tag c = t) (children e) of
        None \<Rightarrow> dflt
      | Some c \<Rightarrow> (case etext c of None \<Rightarrow> [] | Some s \<Rightarrow> s))"

definition findtext_job_status :: "element \<Rightarrow> string option" where
  \<comment> \<open>\<open>xml_root.findtext(".//job/status")\<close>: the first \<open>status\<close> child of a \<open>job\<close> element below
     the root (the root itself is not a candidate); \<open>None\<close> when there is none\<close>
  "findtext_job_status xml_root =
     (case concat (map (\<lambda>j. filter (\<lambda>c. tag c = ''status'') (children j))
                    (filter (\<lambda>x. tag x = ''job'') (concat (map iter_all (children xml_root)))))
      of [] \<Rightarrow> None
       | c # _ \<Rightarrow> Some (case etext c of None \<Rightarrow> [] | Some s \<Rightarrow> s))"

section \<open>api_handlers: the request strategies\<close>

text \<open>
  What a request meets outside the add-on: the reply of the device to the \<open>n\<close>-th
  request of the run (\<open>requests.get\<close> either fails or returns a status code and a body),
  the XML parser, \<open>urllib.parse\<close>, \<open>str.capitalize\<close> and the clock, already formatted. The pause between two
  polls and the log lines have no part in what is returned and are left out.
\<close>

datatype http_reply = ConnectionFailed string | Response nat string

datatype exc = RequestException string | ParseError string | OtherException string

record url_parts =
  url_scheme :: string
  url_netloc :: string
  url_path :: string
  query_key :: string
  url_hostname :: "string option"

record env =
  http_get :: "nat \<Rightarrow> string \<Rightarrow> http_reply"
  et_fromstring :: "string \<Rightarrow> string + element"
  urlparse :: "string \<Rightarrow> url_parts"
  urllib_quote :: "string \<Rightarrow> string"
  str_capitalize :: "string \<Rightarrow> string"
  query_time_str :: string

definition get_checked :: "env \<Rightarrow> nat \<Rightarrow> string \<Rightarrow> exc + string" where
  \<comment> \<open>\<open>requests.get(url, verify=False, timeout=30)\<close> followed by \<open>raise_for_status()\<close>, which
     raises on a status code from 400 to 599\<close>
  "get_checked e n url =
     (case http_get e n url of
        ConnectionFailed m \<Rightarrow> Inl (RequestException m)
      | Response code body \<Rightarrow>
          if 400 \<le> code \<and> code < 600 then Inl (RequestException ''HTTPError'')
          else Inr body)"

definition GET_api_generic :: "env \<Rightarrow> string \<Rightarrow> nat \<Rightarrow> exc + ('f json list \<times> nat)" where
  "GET_api_generic e api_url n =
     (case get_checked e n api_url of
        Inl err \<Rightarrow> Inl err
      | Inr body \<Rightarrow> Inr ([JDict [(''_raw'', JStr body)]], Suc n))"

definition py_str :: "string option \<Rightarrow> string" where
  \<comment> \<open>how an f-string prints a value that may be \<open>None\<close>\<close>
  "py_str v = (case v of None \<Rightarrow> ''None'' | Some s \<Rightarrow> s)"

definition host_value :: "string option \<Rightarrow> 'f json" where
  "host_value h = (case h of None \<Rightarrow> JNone | Some s \<Rightarrow> JStr s)"

definition make_event ::
  "(string \<Rightarrow> string) \<Rightarrow> string option \<Rightarrow> string \<Rightarrow> string \<Rightarrow> element \<Rightarrow> 'f json" where
  \<comment> \<open>the dictionary of lines 137-144\<close>
  "make_event capitalize host logid severity entry =
     JDict
       [(''happenedOn'', JStr (findtext entry ''time_generated'' [])),
        (''severity'', JStr ''warn''),
        (''source'', host_value host),
        (''message'',
           JStr (severity @ '' :: ['' @ logid @ ''] '' @ findtext entry ''type'' [] @ '' - '' @
                 capitalize (findtext entry ''subtype'' []) @ '' : '' @
                 findtext entry ''threatid'' [] @ '' ('' @ findtext entry ''direction'' [] @
                 '' '' @ findtext entry ''src'' [] @ '' -> '' @ findtext entry ''dst'' [] @
                 '')''))]"

definition process_entry ::
  "(string \<Rightarrow> string) \<Rightarrow> string option \<Rightarrow> element \<Rightarrow> 'f json list" where
  \<comment> \<open>the body of the loop over the entries (lines 129-145): the events it appends\<close>
  "process_entry capitalize host entry =
     (case dict_get (attrib entry) ''logid'' of
        None \<Rightarrow> []
      | Some logid \<Rightarrow>
          if logid = [] then []
          else
            (let severity = findtext entry ''severity'' []
             in if lower severity = ''high'' \<or> lower severity = ''critical''
                then [make_event capitalize host logid severity entry]
                else []))"

definition process_entries ::
  "(string \<Rightarrow> string) \<Rightarrow> string option \<Rightarrow> element \<Rightarrow> 'f json list" where
  \<comment> \<open>the loop of line 128\<close>
  "process_entries capitalize host xml_root =
     concat (map (process_entry capitalize host) (iter_tag ''entry'' xml_root))"

text \<open>
  The poll loop of one job (lines 117-153) with \<open>k\<close> attempts left: \<open>Some\<close> events when
  the job finished, \<open>None\<close> when the attempts ran out, and the number of requests made so
  far. A failed request and a body that does not parse raise.
\<close>

fun poll_job ::
  "env \<Rightarrow> string option \<Rightarrow> string \<Rightarrow> nat \<Rightarrow> nat \<Rightarrow> exc + ('f json list option \<times> nat)" where
  "poll_job e host report_url 0 n = Inr (None, n)"
| "poll_job e host report_url (Suc k) n =
     (case get_checked e n report_url of
        Inl err \<Rightarrow> Inl err
      | Inr body \<Rightarrow>
          (case et_fromstring e body of
             Inl m \<Rightarrow> Inl (ParseError m)
           | Inr xml_root \<Rightarrow>
               if findtext_job_status xml_root = Some ''FIN''
               then Inr (Some (process_entries (str_capitalize e) host xml_root), Suc n)
               else poll_job e host report_url k (Suc n)))"

definition report_url_of :: "string \<Rightarrow> string \<Rightarrow> string option \<Rightarrow> string" where
  \<comment> \<open>line 112\<close>
  "report_url_of base_url apikey job_id =
     base_url @ ''?type=log&action=get&job-id='' @ py_str job_id @ ''&key='' @ apikey"

fun process_jobs ::
  "env \<Rightarrow> string option \<Rightarrow> string list \<Rightarrow> 'f json list \<Rightarrow> nat \<Rightarrow> exc + ('f json list \<times> nat)"
  where
  \<comment> \<open>the loop of line 111 over the report URLs of the jobs, 11 attempts each\<close>
  "process_jobs e host [] event_list n = Inr (event_list, n)"
| "process_jobs e host (report_url # rest) event_list n =
     (case poll_job e host report_url 11 n of
        Inl err \<Rightarrow> Inl err
      | Inr (None, n') \<Rightarrow> process_jobs e host rest event_list n'
      | Inr (Some events, n') \<Rightarrow> process_jobs e host rest (event_list @ events) n')"

definition base_url_of :: "url_parts \<Rightarrow> string" where
  \<comment> \<open>line 70\<close>
  "base_url_of p = url_scheme p @ ''://'' @ url_netloc p @ url_path p"

definition threat_query_url :: "env \<Rightarrow> string \<Rightarrow> string" where
  \<comment> \<open>lines 91-95\<close>
  "threat_query_url e api_url =
     (let p = urlparse e api_url;
          threat_query = ''receive_time geq '' @ [CHR 0x27] @ query_time_str e @ [CHR 0x27]
      in base_url_of p @ ''?type=log&log-type=threat&nlogs=5000&query=('' @
         urllib_quote e threat_query @ '')&key='' @ query_key p)"

definition job_ids_of :: "element \<Rightarrow> string option list" where
  \<comment> \<open>line 104\<close>
  "job_ids_of root = map etext (iter_tag ''job'' root)"

definition custom_GET_api_threat_traffic ::
  "env \<Rightarrow> string \<Rightarrow> nat \<Rightarrow> exc + ('f json list \<times> nat)" where
  "custom_GET_api_threat_traffic e api_url n =
     (let p = urlparse e api_url;
          base_url = base_url_of p;
          apikey = query_key p;
          host = url_hostname p
      in case get_checked e n (threat_query_url e api_url) of
           Inl err \<Rightarrow> Inl err
         | Inr body \<Rightarrow>
             (case et_fromstring e body of
                Inl m \<Rightarrow> Inl (ParseError m)
              | Inr root \<Rightarrow>
                  process_jobs e host (map (report_url_of base_url apikey) (job_ids_of root))
                    [] (Suc n)))"

section \<open>palo_alto_input_helper: one host, then all hosts\<close>

text \<open>
  The collaborators of \<open>process_host_endpoints\<close>: the endpoint configuration (a lookup that
  may raise), \<open>string.Template.safe_substitute\<close>, \<open>json.dumps\<close>, \<open>float()\<close>, and what
  the requests for one endpoint of one host meet. The event writer is the list of the
  events written so far. Logging is not modelled.
\<close>

record endpoint_config =
  cfg_api_url :: string
  cfg_script_type :: string

record 'f services =
  get_api_endpoint_config :: "string \<Rightarrow> exc + endpoint_config"
  substitute_variables :: "string \<Rightarrow> string dict \<Rightarrow> string"
  json_dumps :: "'f json \<Rightarrow> string"
  float_of :: "string \<Rightarrow> 'f option"
  device :: "string \<Rightarrow> string \<Rightarrow> env"

record splunk_event =
  ev_data :: string
  ev_index :: "string option"
  ev_sourcetype :: string
  ev_source :: string
  ev_host :: string

definition record_xml_text :: "'f services \<Rightarrow> 'f json \<Rightarrow> exc + string" where
  \<comment> \<open>lines 250-253 and 277-280: the \<open>_raw\<close> text of the record when it has one, else the
     record serialised with \<open>json.dumps\<close>; a \<open>_raw\<close> that is not text fails in the parser\<close>
  "record_xml_text sv rec =
     (case rec of
        JDict d \<Rightarrow>
          (case dict_get d ''_raw'' of
             Some (JStr s) \<Rightarrow> Inr s
           | Some _ \<Rightarrow> Inl (OtherException ''TypeError'')
           | None \<Rightarrow> Inr (json_dumps sv rec))
      | _ \<Rightarrow> Inr (json_dumps sv rec))"

definition new_event :: "string \<Rightarrow> string option \<Rightarrow> string \<Rightarrow> string \<Rightarrow> string \<Rightarrow> splunk_event" where
  \<comment> \<open>the \<open>smi.Event\<close> of lines 263-269 and 289-295\<close>
  "new_event payload index sourcetype endpoint_name host =
     \<lparr>ev_data = payload, ev_index = index, ev_sourcetype = sourcetype,
      ev_source = ''palo_alto:'' @ endpoint_name, ev_host = host\<rparr>"

text \<open>
  The two ingestion loops return the writer, the event count and the exception that
  stopped them, if any: what was written before an exception stays written.
\<close>

fun ingest_metrics ::
  "'f services \<Rightarrow> string \<Rightarrow> string \<Rightarrow> string option \<Rightarrow> string \<Rightarrow> 'f json list \<Rightarrow>
   splunk_event list \<Rightarrow> nat \<Rightarrow> splunk_event list \<times> nat \<times> exc option" where
  "ingest_metrics sv endpoint_name host index sourcetype [] written total_events =
     (written, total_events, None)"
| "ingest_metrics sv endpoint_name host index sourcetype (rec # rest) written total_events =
     (case record_xml_text sv rec of
        Inl err \<Rightarrow> (written, total_events, Some err)
      | Inr xml_text \<Rightarrow>
          (let metrics_dict =
                 xml_to_metrics (et_fromstring (device sv host endpoint_name)) (float_of sv)
                   xml_text endpoint_name host
           in if length metrics_dict > 2
              then ingest_metrics sv endpoint_name host index sourcetype rest
                     (written @ [new_event (json_dumps sv (JDict metrics_dict)) index sourcetype
                                   endpoint_name host])
                     (total_events + 1)
              else ingest_metrics sv endpoint_name host index sourcetype rest written
                     total_events))"

fun write_events ::
  "'f services \<Rightarrow> string \<Rightarrow> string \<Rightarrow> string option \<Rightarrow> string \<Rightarrow> 'f json list \<Rightarrow>
   splunk_event list \<Rightarrow> splunk_event list \<times> exc option" where
  \<comment> \<open>the loop of lines 275-296\<close>
  "write_events sv endpoint_name host index sourcetype [] written = (written, None)"
| "write_events sv endpoint_name host index sourcetype (rec # rest) written =
     (case record_xml_text sv rec of
        Inl err \<Rightarrow> (written, Some err)
      | Inr xml_text \<Rightarrow>
          (let event_dict =
                 xml_to_json (et_fromstring (device sv host endpoint_name)) (float_of sv)
                   xml_text endpoint_name host;
               event_json = json_dumps sv (JDict event_dict)
           in write_events sv endpoint_name host index sourcetype rest
                (written @ [new_event event_json index sourcetype endpoint_name host])))"

definition ingest_events ::
  "'f services \<Rightarrow> string \<Rightarrow> string \<Rightarrow> string option \<Rightarrow> string \<Rightarrow> 'f json list \<Rightarrow>
   splunk_event list \<Rightarrow> nat \<Rightarrow> splunk_event list \<times> nat \<times> exc option" where
  \<comment> \<open>lines 275-299: the count grows by \<open>len(data)\<close> once the loop is through\<close>
  "ingest_events sv endpoint_name host index sourcetype data written total_events =
     (case write_events sv endpoint_name host index sourcetype data written of
        (written', Some err) \<Rightarrow> (written', total_events, Some err)
      | (written', None) \<Rightarrow> (written', total_events + length data, None))"

definition call_handler :: "'f services \<Rightarrow> string \<Rightarrow> string \<Rightarrow> string \<Rightarrow> string \<Rightarrow>
    (exc + ('f json list \<times> nat)) option" where
  \<comment> \<open>lines 237-243: \<open>None\<close> is the unknown script type\<close>
  "call_handler sv host endpoint_name script_type api_url =
     (if script_type = ''GET_api_generic_xml_output''
      then Some (GET_api_generic (device sv host endpoint_name) api_url 0)
      else if script_type = ''custom_GET_api_threat_traffic''
      then Some (custom_GET_api_threat_traffic (device sv host endpoint_name) api_url 0)
      else None)"

definition process_endpoint ::
  "'f services \<Rightarrow> string \<Rightarrow> string \<Rightarrow> string option \<Rightarrow> string \<Rightarrow> string \<Rightarrow>
   splunk_event list \<times> nat \<Rightarrow> string \<Rightarrow> splunk_event list \<times> nat" where
  \<comment> \<open>the body of the loop over the endpoints (lines 212-304); an exception inside it is
     caught and the loop goes on\<close>
  "process_endpoint sv host api_key index sourcetype index_type st name =
     (let endpoint_name = strip name; written = fst st; total_events = snd st
      in if endpoint_name = [] then st
         else
           (case get_api_endpoint_config sv endpoint_name of
              Inl err \<Rightarrow> st
            | Inr endpoint_config \<Rightarrow>
                (let variables = [(''host'', host), (''apikey'', api_key), (''api_key'', api_key)];
                     api_url = substitute_variables sv (cfg_api_url endpoint_config) variables
                 in case call_handler sv host endpoint_name (cfg_script_type endpoint_config)
                           api_url of
                      None \<Rightarrow> st
                    | Some (Inl err) \<Rightarrow> st
                    | Some (Inr (data, n)) \<Rightarrow>
                        (let (written', total', err) =
                               (if index_type = ''metrics''
                                then ingest_metrics sv endpoint_name host index sourcetype
                                       data written total_events
                                else ingest_events sv endpoint_name host index sourcetype
                                       data written total_events)
                         in (written', total')))))"

definition run_endpoints ::
  "'f services \<Rightarrow> string \<Rightarrow> string \<Rightarrow> string list \<Rightarrow> string option \<Rightarrow> string \<Rightarrow> string \<Rightarrow>
   splunk_event list \<Rightarrow> splunk_event list \<times> nat" where
  \<comment> \<open>the loop of line 211, \<open>total_events\<close> starting at 0\<close>
  "run_endpoints sv host api_key api_endpoints index sourcetype index_type written =
     foldl (process_endpoint sv host api_key index sourcetype index_type) (written, 0)
       api_endpoints"

definition host_outcome :: "string \<Rightarrow> exc + nat \<Rightarrow> string \<times> nat \<times> bool" where
  \<comment> \<open>the \<open>try\<close> of line 207 with its \<open>except Exception\<close> (lines 309-311), given how the
     statements inside it end: with the event count, or with an exception\<close>
  "host_outcome host body =
     (case body of
        Inr total_events \<Rightarrow> (host, total_events, True)
      | Inl host_error \<Rightarrow> (host, 0, False))"

definition process_host_endpoints ::
  "'f services \<Rightarrow> string \<Rightarrow> string \<Rightarrow> string list \<Rightarrow> string option \<Rightarrow> string \<Rightarrow> string \<Rightarrow>
   splunk_event list \<Rightarrow> (string \<times> nat \<times> bool) \<times> splunk_event list" where
  "process_host_endpoints sv host api_key api_endpoints index sourcetype index_type written =
     (let (written', total_events) =
            run_endpoints sv host api_key api_endpoints index sourcetype index_type written
      in (host_outcome host (Inr total_events), written'))"

text \<open>
  The collection loop of \<open>stream_events\<close> (lines 391-404) over the results of the futures
  in the order they complete: \<open>future.result()\<close> returns the tuple of the host or raises.
  The state is \<open>(total_events_all_hosts, successful_hosts, failed_hosts)\<close>.
\<close>

definition collect_result ::
  "nat \<times> nat \<times> nat \<Rightarrow> exc + (string \<times> nat \<times> bool) \<Rightarrow> nat \<times> nat \<times> nat" where
  "collect_result st res =
     (case st of (total_events_all_hosts, successful_hosts, failed_hosts) \<Rightarrow>
        (case res of
           Inr (host_ip, events_count, success) \<Rightarrow>
             if success
             then (total_events_all_hosts + events_count, successful_hosts + 1, failed_hosts)
             else (total_events_all_hosts, successful_hosts, failed_hosts + 1)
         | Inl err \<Rightarrow> (total_events_all_hosts, successful_hosts, failed_hosts + 1)))"

definition stream_events_tally :: "(exc + (string \<times> nat \<times> bool)) list \<Rightarrow> nat \<times> nat \<times> nat" where
  "stream_events_tally results = foldl collect_result (0, 0, 0) results"

definition future_result ::
  "(string \<Rightarrow> exc option) \<Rightarrow> (string \<Rightarrow> exc + nat) \<Rightarrow> string \<Rightarrow> exc + (string \<times> nat \<times> bool)" where
  \<comment> \<open>what the future of a host yields: the exception that left its work unit, if one did,
     else the tuple \<open>process_host_endpoints\<close> returns for the way its body ended\<close>
  "future_result escaped body host =
     (case escaped host of
        Some err \<Rightarrow> Inl err
      | None \<Rightarrow> Inr (host_outcome host (body host)))"

definition host_failed :: "(string \<Rightarrow> exc option) \<Rightarrow> (string \<Rightarrow> exc + nat) \<Rightarrow> string \<Rightarrow> bool" where
  \<comment> \<open>an exception was raised while the host was processed\<close>
  "host_failed escaped body host = (escaped host \<noteq> None \<or> isl (body host))"

definition emitted_count :: "(string \<Rightarrow> exc + nat) \<Rightarrow> string \<Rightarrow> nat" where
  "emitted_count body host = (case body host of Inr n \<Rightarrow> n | Inl err \<Rightarrow> 0)"

section \<open>Vocabulary of the specification\<close>

text \<open>
  The element reached from \<open>e\<close> along a path of tag names (the first child carrying each
  tag), and the value reached in a structured value along the same keys.
\<close>

fun elem_at :: "element \<Rightarrow> string list \<Rightarrow> element option" where
  "elem_at e [] = Some e"
| "elem_at e (t # ts) =
     (case find (\<lambda>c. tag c = t) (children e) of
        None \<Rightarrow> None
      | Some c \<Rightarrow> elem_at c ts)"

fun json_at :: "'f json \<Rightarrow> string list \<Rightarrow> 'f json option" where
  "json_at v [] = Some v"
| "json_at (JDict d) (t # ts) =
     (case dict_get d t of None \<Rightarrow> None | Some v \<Rightarrow> json_at v ts)"
| "json_at _ (t # ts) = None"

fun no_duplicate_siblings :: "element \<Rightarrow> bool" where
  "no_duplicate_siblings (Element t attrs txt cs) =
     (distinct (map tag cs) \<and> list_all no_duplicate_siblings cs)"

definition is_leaf :: "element \<Rightarrow> bool" where
  "is_leaf e = (attrib e = [] \<and> children e = [])"

definition blank_text :: "element \<Rightarrow> bool" where
  \<comment> \<open>no text, or only white space\<close>
  "blank_text e = (case etext e of None \<Rightarrow> True | Some s \<Rightarrow> strip s = [])"

definition trimmed_text :: "element \<Rightarrow> string" where
  "trimmed_text e = (case etext e of None \<Rightarrow> [] | Some s \<Rightarrow> strip s)"

definition has_float_text :: "(string \<Rightarrow> 'f option) \<Rightarrow> element \<Rightarrow> bool" where
  \<comment> \<open>the element has non-empty trimmed text that \<open>float()\<close> accepts\<close>
  "has_float_text py_float e = (\<not> blank_text e \<and> py_float (trimmed_text e) \<noteq> None)"

text \<open>
  Every element below \<open>e\<close> (\<open>e\<close> itself excluded), in document order, with the tag names
  on the way to it, \<open>pre\<close> being the tag names down to \<open>e\<close>.
\<close>

fun descendants :: "string list \<Rightarrow> element \<Rightarrow> (string list \<times> element) list" where
  "descendants pre (Element t attrs txt cs) =
     concat (map (\<lambda>c. (pre @ [tag c], c) # descendants (pre @ [tag c]) c) cs)"

fun dotted :: "string list \<Rightarrow> string" where
  \<comment> \<open>the tag names joined by dots\<close>
  "dotted [] = []"
| "dotted [t] = t"
| "dotted (t # u # ts) = t @ ''.'' @ dotted (u # ts)"

definition well_formed_tags :: "element \<Rightarrow> bool" where
  \<comment> \<open>no element below \<open>e\<close> has the empty tag (an XML name is never empty)\<close>
  "well_formed_tags e = list_all (\<lambda>(p, c). tag c \<noteq> []) (descendants [] e)"

definition sequence_or_single :: "'f json list \<Rightarrow> 'f json" where
  \<comment> \<open>what a tag's key holds after the loop over the children: the value itself for one
     occurrence, the sequence of the values otherwise\<close>
  "sequence_or_single vs = (case vs of [v] \<Rightarrow> v | _ \<Rightarrow> JList vs)"

definition example_nbsp_text :: string where
  \<comment> \<open>the text \<open>42\<close> between two no-break spaces (U+00A0)\<close>
  "example_nbsp_text = [CHR 0xA0, CHR ''4'', CHR ''2'', CHR 0xA0]"

definition example_float :: "string \<Rightarrow> int option" where
  \<comment> \<open>a stand-in for \<open>float()\<close> in the worked examples: it accepts integer literals only\<close>
  "example_float s = py_int s"

definition keeps_entry :: "element \<Rightarrow> bool" where
  \<comment> \<open>a non-empty \<open>logid\<close> attribute and a severity that is "high" or "critical" in any case\<close>
  "keeps_entry entry =
     ((\<exists>logid. dict_get (attrib entry) ''logid'' = Some logid \<and> logid \<noteq> []) \<and>
      lower (findtext entry ''severity'' []) \<in> {''high'', ''critical''})"

definition logid_of :: "element \<Rightarrow> string" where
  "logid_of entry = (case dict_get (attrib entry) ''logid'' of None \<Rightarrow> [] | Some l \<Rightarrow> l)"

definition kept_records ::
  "(string \<Rightarrow> string) \<Rightarrow> string option \<Rightarrow> element \<Rightarrow> 'f json list" where
  \<comment> \<open>the records of the kept entries of a document, in document order\<close>
  "kept_records capitalize host d =
     map (\<lambda>entry. make_event capitalize host (logid_of entry) (findtext entry ''severity'' []) entry)
       (filter keeps_entry (iter_tag ''entry'' d))"

text \<open>
  The job-polling protocol in the words of the specification. A poll of a job finds it
  pending, finished (the status document says \<open>FIN\<close>) or fails (the request fails or the
  body does not parse). A job is polled until the first poll that does not find it
  pending, at most 11 times: a finished job contributes the kept entries of that
  document, a job still pending after 11 polls contributes nothing, and a failed poll is
  raised. The jobs are taken in order and their contributions concatenated.
\<close>

datatype poll_state = Pending | Finished element | Failed exc

definition poll_state_at :: "env \<Rightarrow> string \<Rightarrow> nat \<Rightarrow> poll_state" where
  \<comment> \<open>what the \<open>n\<close>-th request of the run finds when it asks for the status at \<open>url\<close>\<close>
  "poll_state_at e url n =
     (case get_checked e n url of
        Inl err \<Rightarrow> Failed err
      | Inr body \<Rightarrow>
          (case et_fromstring e body of
             Inl m \<Rightarrow> Failed (ParseError m)
           | Inr d \<Rightarrow> if findtext_job_status d = Some ''FIN'' then Finished d else Pending))"

definition spec_poll ::
  "env \<Rightarrow> string option \<Rightarrow> string \<Rightarrow> nat \<Rightarrow> exc + ('f json list \<times> nat)" where
  \<comment> \<open>the records one job contributes and the number of requests made after it\<close>
  "spec_poll e host url n =
     (case find (\<lambda>i. poll_state_at e url (n + i) \<noteq> Pending) [0..<11] of
        None \<Rightarrow> Inr ([], n + 11)
      | Some i \<Rightarrow>
          (case poll_state_at e url (n + i) of
             Finished d \<Rightarrow> Inr (kept_records (str_capitalize e) host d, n + i + 1)
           | Failed err \<Rightarrow> Inl err
           | Pending \<Rightarrow> Inr ([], n + 11)))"

fun spec_jobs ::
  "env \<Rightarrow> string option \<Rightarrow> string list \<Rightarrow> nat \<Rightarrow> exc + ('f json list \<times> nat)" where
  "spec_jobs e host [] n = Inr ([], n)"
| "spec_jobs e host (url # rest) n =
     (case spec_poll e host url n of
        Inl err \<Rightarrow> Inl err
      | Inr (events, n') \<Rightarrow>
          (case spec_jobs e host rest n' of
             Inl err \<Rightarrow> Inl err
           | Inr (others, n'') \<Rightarrow> Inr (events @ others, n'')))"

definition spec_strategy :: "env \<Rightarrow> string \<Rightarrow> nat \<Rightarrow> exc + ('f json list \<times> nat)" where
  \<comment> \<open>the submission, then the jobs named by the \<open>job\<close> elements of its response\<close>
  "spec_strategy e api_url n =
     (case get_checked e n (threat_query_url e api_url) of
        Inl err \<Rightarrow> Inl err
      | Inr body \<Rightarrow>
          (case et_fromstring e body of
             Inl m \<Rightarrow> Inl (ParseError m)
           | Inr root \<Rightarrow>
               spec_jobs e (url_hostname (urlparse e api_url))
                 (map (\<lambda>j. report_url_of (base_url_of (urlparse e api_url))
                             (query_key (urlparse e api_url)) (etext j))
                    (filter (\<lambda>x. tag x = ''job'') (iter_all root)))
                 (Suc n)))"

definition json_field :: "'f json \<Rightarrow> string \<Rightarrow> 'f json option" where
  \<comment> \<open>the value of a field of a record\<close>
  "json_field v k = (case v of JDict d \<Rightarrow> dict_get d k | _ \<Rightarrow> None)"

section \<open>A worked device\<close>

definition example_capitalize :: "string \<Rightarrow> string" where
  \<comment> \<open>a stand-in for \<open>str.capitalize\<close> in the worked examples, right on ASCII text: the
     first letter in upper case, the rest in lower case\<close>
  "example_capitalize s =
     (case s of
        [] \<Rightarrow> []
      | c # cs \<Rightarrow>
          (if 97 \<le> ord c \<and> ord c \<le> 122 then char_of (ord c - 32) else c) # lower cs)"

text \<open>
  A device for the worked examples: the submission answers with two jobs; job 1 stays
  active for ever, job 2 is finished at the first poll and holds one entry of severity
  \<open>High\<close> (log id 1) and one of severity \<open>Low\<close> (log id 2).
\<close>

definition example_entry_high :: element where
  "example_entry_high =
     Element ''entry'' [(''logid'', ''1'')] None
       [Element ''severity'' [] (Some ''High'') [],
        Element ''time_generated'' [] (Some ''2024/01/01 00:10:00'') [],
        Element ''type'' [] (Some ''THREAT'') [],
        Element ''subtype'' [] (Some ''vulnerability'') [],
        Element ''threatid'' [] (Some ''30001'') [],
        Element ''direction'' [] (Some ''client-to-server'') [],
        Element ''src'' [] (Some ''192.0.2.1'') [],
        Element ''dst'' [] (Some ''192.0.2.2'') []]"

definition example_entry_low :: element where
  "example_entry_low =
     Element ''entry'' [(''logid'', ''2'')] None [Element ''severity'' [] (Some ''Low'') []]"

definition example_jobs_doc :: element where
  "example_jobs_doc =
     Element ''response'' [(''status'', ''success'')] None
       [Element ''result'' [] None
          [Element ''job'' [] (Some ''1'') [], Element ''job'' [] (Some ''2'') []]]"

definition example_fin_doc :: element where
  "example_fin_doc =
     Element ''response'' [(''status'', ''success'')] None
       [Element ''result'' [] None
          [Element ''job'' [] None [Element ''status'' [] (Some ''FIN'') []],
           Element ''log'' [] None
             [Element ''logs'' [] None [example_entry_high, example_entry_low]]]]"

definition example_act_doc :: element where
  "example_act_doc =
     Element ''response'' [(''status'', ''success'')] None
       [Element ''result'' [] None
          [Element ''job'' [] None [Element ''status'' [] (Some ''ACT'') []]]]"

definition example_parser :: "string \<Rightarrow> string + element" where
  "example_parser s =
     (if s = ''jobs'' then Inr example_jobs_doc
      else if s = ''fin'' then Inr example_fin_doc
      else if s = ''act'' then Inr example_act_doc
      else Inl ''syntax error: line 1, column 0'')"

definition example_env :: env where
  "example_env =
     \<lparr>http_get = (\<lambda>n url.
         if url = ''https://10.0.0.5/api/?type=log&action=get&job-id=2&key=K''
         then Response 200 ''fin''
         else if url = ''https://10.0.0.5/api/?type=log&action=get&job-id=1&key=K''
         then Response 200 ''act''
         else Response 200 ''jobs''),
      et_fromstring = example_parser,
      urlparse = (\<lambda>u. \<lparr>url_scheme = ''https'', url_netloc = ''10.0.0.5'', url_path = ''/api/'',
                           query_key = ''K'', url_hostname = Some ''10.0.0.5''\<rparr>),
      urllib_quote = (\<lambda>s. s),
      str_capitalize = example_capitalize,
      query_time_str = ''2024/01/01 00:00:00''\<rparr>"

text \<open>
  The same device, except that job 1 is finished at the first poll and the status
  request for job 2 is answered with status code 500.
\<close>

definition example_failing_env :: env where
  "example_failing_env =
     example_env\<lparr>http_get := (\<lambda>n url.
         if url = ''https://10.0.0.5/api/?type=log&action=get&job-id=1&key=K''
         then Response 200 ''fin''
         else if url = ''https://10.0.0.5/api/?type=log&action=get&job-id=2&key=K''
         then Response 500 ''Internal Server Error''
         else Response 200 ''jobs'')\<rparr>"

definition succeeded :: "exc + (string \<times> nat \<times> bool) \<Rightarrow> bool" where
  "succeeded res = (case res of Inr (h, n, ok) \<Rightarrow> ok | Inl err \<Rightarrow> False)"

definition counted :: "exc + (string \<times> nat \<times> bool) \<Rightarrow> nat" where
  "counted res = (case res of Inr (h, n, ok) \<Rightarrow> if ok then n else 0 | Inl err \<Rightarrow> 0)"

definition example_dumps :: "int json \<Rightarrow> string" where
  \<comment> \<open>a stand-in for \<open>json.dumps\<close> in the worked examples: it tells an error record, a
     record with data and any other value apart, which is all the examples look at\<close>
  "example_dumps v =
     (case v of
        JDict d \<Rightarrow>
          (case dict_get d ''error'' of
             Some (JStr m) \<Rightarrow> ''{error: '' @ m @ ''}''
           | _ \<Rightarrow> (case dict_get d ''data'' of Some x \<Rightarrow> ''{data: ...}'' | None \<Rightarrow> ''{...}''))
      | _ \<Rightarrow> ''...'')"

definition example_services :: "int services" where
  "example_services =
     \<lparr>get_api_endpoint_config =
        (\<lambda>name. if name = ''threats''
                 then Inr \<lparr>cfg_api_url = ''https://${host}/api/?key=${apikey}'',
                           cfg_script_type = ''custom_GET_api_threat_traffic''\<rparr>
                 else Inl (OtherException ''AttributeError'')),
      substitute_variables = (\<lambda>t vars. ''https://10.0.0.5/api/?key=K''),
      json_dumps = example_dumps,
      float_of = example_float,
      device = (\<lambda>host endpoint_name. example_env)\<rparr>"

section \<open>Properties of the markup conversion\<close>

subsection \<open>Dictionaries\<close>

lemma map_of_dict_set: "map_of (dict_set d k v) = (map_of d)(k \<mapsto> v)"
  by (induction d) (auto simp: fun_eq_iff)

lemma dict_get_dict_set:
  "dict_get (dict_set d k v) k' = (if k' = k then Some v else dict_get d k')"
  by (simp add: dict_get_def map_of_dict_set)

lemma dict_set_not_Nil: "dict_set d k v \<noteq> []"
  by (cases d) (auto split: if_splits)

lemma keys_dom: "set (dict_keys d) = dom (map_of d)"
  by (simp add: dict_keys_def dom_map_of_conv_image_fst)

lemma keys_dict_set: "set (dict_keys (dict_set d k v)) = insert k (set (dict_keys d))"
  by (simp add: keys_dom map_of_dict_set)

lemma dict_get_Some_key: "dict_get d k = Some v \<Longrightarrow> k \<in> set (dict_keys d)"
  by (auto simp: keys_dom dict_get_def)

lemma dict_update_Nil: "dict_update d [] = d"
  by (simp add: dict_update_def)

lemma dict_update_Cons: "dict_update d ((k, v) # other) = dict_update (dict_set d k v) other"
  by (simp add: dict_update_def)

lemma dict_update_eq_Nil: "dict_update d other = [] \<longleftrightarrow> d = [] \<and> other = []"
proof (induction other arbitrary: d)
  case Nil
  show ?case by (simp add: dict_update_Nil)
next
  case (Cons p other)
  obtain k v where p: "p = (k, v)" by (cases p)
  show ?case by (simp add: p dict_update_Cons Cons.IH dict_set_not_Nil)
qed

lemma dict_get_dict_update:
  "distinct (map fst other) \<Longrightarrow>
   dict_get (dict_update d other) k =
     (case dict_get other k of Some v \<Rightarrow> Some v | None \<Rightarrow> dict_get d k)"
proof (induction other arbitrary: d)
  case Nil
  show ?case by (simp add: dict_update_Nil dict_get_def)
next
  case (Cons p other)
  obtain k' v' where p: "p = (k', v')" by (cases p)
  have notin: "map_of other k' = None"
    using Cons.prems by (simp add: p map_of_eq_None_iff)
  have "dict_get (dict_update (dict_set d k' v') other) k =
          (case dict_get other k of Some v \<Rightarrow> Some v | None \<Rightarrow> dict_get (dict_set d k' v') k)"
    using Cons.prems by (intro Cons.IH) simp
  then show ?case
    using notin unfolding p dict_update_Cons dict_get_def map_of_dict_set
    by (auto split: option.splits)
qed

lemma distinct_keys_dict_set:
  "distinct (map fst d) \<Longrightarrow> distinct (map fst (dict_set d k v))"
proof (induction d)
  case Nil
  show ?case by simp
next
  case (Cons p d)
  have "fst ` set (dict_set d k v) = insert k (fst ` set d)"
    using keys_dict_set [of d k v] by (simp add: dict_keys_def)
  then show ?case using Cons by (cases p) auto
qed

subsection \<open>The children of a converted element\<close>

lemma build_children_snoc:
  "build_children (ps @ [(k, v)]) = add_child (build_children ps) k v"
  by (simp add: build_children_def)

lemma add_child_not_Nil: "add_child d k v \<noteq> []"
  by (simp add: add_child_def dict_set_not_Nil split: option.splits json.splits)

lemma distinct_keys_add_child:
  "distinct (map fst d) \<Longrightarrow> distinct (map fst (add_child d k v))"
  by (simp add: add_child_def distinct_keys_dict_set split: option.splits json.splits)

lemma build_children_not_Nil: "ps \<noteq> [] \<Longrightarrow> build_children ps \<noteq> []"
proof (induction ps rule: rev_induct)
  case Nil
  then show ?case by simp
next
  case (snoc p ps)
  show ?case by (cases p) (simp add: build_children_snoc add_child_not_Nil)
qed

lemma distinct_keys_build_children: "distinct (map fst (build_children ps))"
proof (induction ps rule: rev_induct)
  case Nil
  show ?case by (simp add: build_children_def)
next
  case (snoc p ps)
  then show ?case by (cases p) (simp add: build_children_snoc distinct_keys_add_child)
qed

lemma child_dict_repr:
  assumes "\<forall>p \<in> set ps. \<forall>xs. snd p \<noteq> JList xs"
  shows "dict_get (build_children ps) u =
           (case map snd (filter (\<lambda>p. fst p = u) ps) of
              [] \<Rightarrow> None
            | [v] \<Rightarrow> Some v
            | v # w # vs \<Rightarrow> Some (JList (v # w # vs)))"
  using assms
proof (induction ps rule: rev_induct)
  case Nil
  show ?case by (simp add: build_children_def dict_get_def)
next
  case (snoc p ps)
  obtain k v where p: "p = (k, v)" by (cases p)
  have IH: "dict_get (build_children ps) u =
           (case map snd (filter (\<lambda>p. fst p = u) ps) of
              [] \<Rightarrow> None
            | [v] \<Rightarrow> Some v
            | v # w # vs \<Rightarrow> Some (JList (v # w # vs)))"
    using snoc by simp
  have nl: "\<forall>q \<in> set ps. \<forall>xs. snd q \<noteq> JList xs" using snoc.prems by simp
  show ?case
  proof (cases "k = u")
    case False
    then show ?thesis
      using IH by (simp add: p build_children_snoc add_child_def dict_get_dict_set
          split: option.splits json.splits)
  next
    case True
    let ?vs = "map snd (filter (\<lambda>p. fst p = u) ps)"
    have mem: "\<forall>x \<in> set ?vs. \<forall>xs. x \<noteq> JList xs" using nl by auto
    show ?thesis
    proof (cases ?vs)
      case Nil
      then show ?thesis using IH True
        by (simp add: p build_children_snoc add_child_def dict_get_dict_set)
    next
      case (Cons a as)
      note Cons1 = Cons
      show ?thesis
      proof (cases as)
        case Nil
        have "\<forall>xs. a \<noteq> JList xs" using mem Cons1 by simp
        then show ?thesis using IH True Cons1 Nil
          by (cases a) (simp_all add: p build_children_snoc add_child_def dict_get_dict_set)
      next
        case (Cons b bs)
        then show ?thesis using IH True Cons1
          by (simp add: p build_children_snoc add_child_def dict_get_dict_set)
      qed
    qed
  qed
qed

lemma element_to_dict_not_list: "element_to_dict pf e \<noteq> JList xs"
  by (cases e) (simp add: Let_def coerce_text_def split: option.splits)

declare element_to_dict.simps [simp del]

lemma children_key_value:
  assumes u: "u \<in> tag ` set cs" and nt: "u \<noteq> ''#text''"
  shows "\<exists>node. element_to_dict pf (Element t attrs txt cs) = JDict node \<and>
           dict_get node u =
             Some (sequence_or_single (map (element_to_dict pf) (filter (\<lambda>c. tag c = u) cs)))"
proof -
  let ?ps = "map (\<lambda>c. (tag c, element_to_dict pf c)) cs"
  let ?cd = "build_children ?ps"
  let ?node0 = "dict_update [] (map (\<lambda>(k, v). (CHR ''@'' # k, JStr v)) attrs) :: 'a json dict"
  let ?node = "dict_update ?node0 ?cd"
  let ?vs = "map (element_to_dict pf) (filter (\<lambda>c. tag c = u) cs)"
  have cs: "cs \<noteq> []" using u by auto
  have vs: "map snd (filter (\<lambda>p. fst p = u) ?ps) = ?vs"
    by (simp add: filter_map comp_def)
  have vsne: "?vs \<noteq> []"
    using u by (auto simp: filter_empty_conv)
  have "\<forall>p \<in> set ?ps. \<forall>xs. snd p \<noteq> JList xs"
    by (auto simp: element_to_dict_not_list)
  then have "dict_get ?cd u =
           (case ?vs of [] \<Rightarrow> None | [v] \<Rightarrow> Some v | v # w # vs \<Rightarrow> Some (JList (v # w # vs)))"
    using child_dict_repr [of ?ps u] vs by simp
  then have cd: "dict_get ?cd u = Some (sequence_or_single ?vs)"
    using vsne by (simp add: sequence_or_single_def split: list.splits)
  have node: "dict_get ?node u = Some (sequence_or_single ?vs)"
    using cd by (simp add: dict_get_dict_update distinct_keys_build_children)
  have nodene: "?node \<noteq> []"
    using cs by (simp add: dict_update_eq_Nil build_children_not_Nil)
  show ?thesis
  proof (cases "\<exists>s. txt = Some s \<and> strip s \<noteq> []")
    case True
    then obtain s where s: "txt = Some s" "strip s \<noteq> []" by blast
    have "element_to_dict pf (Element t attrs txt cs) =
            JDict (dict_set ?node ''#text'' (JStr (strip s)))"
      using s cs nodene by (simp add: element_to_dict.simps Let_def)
    moreover have "dict_get (dict_set ?node ''#text'' (JStr (strip s))) u =
                     Some (sequence_or_single ?vs)"
      using node nt by (simp add: dict_get_dict_set)
    ultimately show ?thesis by blast
  next
    case False
    then have "element_to_dict pf (Element t attrs txt cs) = JDict ?node"
      using cs nodene by (cases "txt") (auto simp: element_to_dict.simps Let_def)
    then show ?thesis using node by blast
  qed
qed

lemma unique_child_filter:
  "distinct (map tag cs) \<Longrightarrow> find (\<lambda>c. tag c = u) cs = Some c \<Longrightarrow> filter (\<lambda>c. tag c = u) cs = [c]"
proof (induction cs)
  case Nil
  then show ?case by simp
next
  case (Cons a cs)
  show ?case
  proof (cases "tag a = u")
    case True
    then have "a = c" using Cons.prems by simp
    moreover have "u \<notin> tag ` set cs" using Cons.prems True by auto
    then have "filter (\<lambda>c. tag c = u) cs = []"
      by (auto simp: filter_empty_conv)
    ultimately show ?thesis using True by simp
  next
    case False
    then show ?thesis using Cons by simp
  qed
qed

lemma find_Some_mem: "find P xs = Some x \<Longrightarrow> x \<in> set xs \<and> P x"
  by (induction xs) (auto split: if_splits)

lemma json_at_element_to_dict:
  "no_duplicate_siblings root \<Longrightarrow> elem_at root path = Some e \<Longrightarrow> ''#text'' \<notin> set path \<Longrightarrow>
   json_at (element_to_dict pf root) path = Some (element_to_dict pf e)"
proof (induction path arbitrary: root)
  case Nil
  then show ?case by simp
next
  case (Cons u ts)
  obtain t attrs tx cs where root: "root = Element t attrs tx cs" by (cases root)
  from Cons.prems(2) obtain c where c: "find (\<lambda>c. tag c = u) cs = Some c" "elem_at c ts = Some e"
    by (auto simp: root split: option.splits)
  have cmem: "c \<in> set cs" "tag c = u" using find_Some_mem [OF c(1)] by simp_all
  have dist: "distinct (map tag cs)" and nd: "no_duplicate_siblings c"
    using Cons.prems(1) cmem by (auto simp: root list_all_iff)
  have filt: "filter (\<lambda>c. tag c = u) cs = [c]" by (rule unique_child_filter [OF dist c(1)])
  have "u \<in> tag ` set cs" using cmem by auto
  moreover have "u \<noteq> ''#text''" using Cons.prems(3) by auto
  ultimately obtain node where node: "element_to_dict pf (Element t attrs tx cs) = JDict node"
      "dict_get node u = Some (sequence_or_single (map (element_to_dict pf) (filter (\<lambda>c. tag c = u) cs)))"
    using children_key_value [of u cs pf t attrs tx] by blast
  have val: "dict_get node u = Some (element_to_dict pf c)"
    using node(2) by (simp add: filt sequence_or_single_def)
  have "json_at (element_to_dict pf c) ts = Some (element_to_dict pf e)"
    using Cons.IH [OF nd c(2)] Cons.prems(3) by simp
  then show ?case by (simp add: root node(1) val)
qed

lemma leaf_conversion:
  "is_leaf e \<Longrightarrow> \<not> blank_text e \<Longrightarrow> element_to_dict pf e = coerce_text pf (trimmed_text e)"
  by (cases e) (auto simp: element_to_dict.simps is_leaf_def blank_text_def trimmed_text_def
      dict_update_Nil Let_def split: option.splits)

lemma empty_conversion:
  "is_leaf e \<Longrightarrow> blank_text e \<Longrightarrow> element_to_dict pf e = JNone"
  by (cases e) (auto simp: element_to_dict.simps is_leaf_def blank_text_def dict_update_Nil
      Let_def split: option.splits)

text \<open>
  Claim C3. When a tag occurs at least twice among the children of one element, the
  converted element is a mapping whose value under that tag is the sequence of the
  converted children carrying the tag, in document order, one member for each occurrence;
  the document \<open><r><a>1</a><a>2</a></r>\<close> converts to
  \<open>{"r": {"a": [1, 2]}}\<close> under \<open>data\<close>. (An XML name is never \<open>#text\<close>, the key the
  conversion reserves for the text of an element with children.)
\<close>

theorem repeated_tag_becomes_sequence:
  assumes "2 \<le> length (filter (\<lambda>c. tag c = u) (children e))" and "u \<noteq> ''#text''"
  shows "(\<exists>node. element_to_dict pf e = JDict node \<and>
            dict_get node u =
              Some (JList (map (element_to_dict pf) (filter (\<lambda>c. tag c = u) (children e)))) \<and>
            length (map (element_to_dict pf) (filter (\<lambda>c. tag c = u) (children e))) =
              length (filter (\<lambda>c. tag c = u) (children e))) \<and>
         xml_to_json
           (\<lambda>x. Inr (Element ''r'' [] None
                       [Element ''a'' [] (Some ''1'') [], Element ''a'' [] (Some ''2'') []]))
           pf ''<r><a>1</a><a>2</a></r>'' endpoint_name host =
         [(''endpoint'', JStr endpoint_name), (''host'', JStr host),
          (''data'', JDict [(''r'', JDict [(''a'', JList [JInt 1, JInt 2])])])]"
proof -
  obtain t attrs tx cs where e: "e = Element t attrs tx cs" by (cases e)
  let ?fs = "filter (\<lambda>c. tag c = u) cs"
  have ne: "?fs \<noteq> []" using assms(1) by (auto simp: e)
  then have "u \<in> tag ` set cs" by (auto simp: filter_empty_conv)
  then obtain node where node: "element_to_dict pf (Element t attrs tx cs) = JDict node"
      "dict_get node u = Some (sequence_or_single (map (element_to_dict pf) ?fs))"
    using children_key_value [of u cs pf t attrs tx] assms(2) by blast
  have "sequence_or_single (map (element_to_dict pf) ?fs) = JList (map (element_to_dict pf) ?fs)"
    using assms(1) by (cases ?fs) (auto simp: e sequence_or_single_def split: list.splits)
  then have first: "\<exists>node. element_to_dict pf e = JDict node \<and>
            dict_get node u =
              Some (JList (map (element_to_dict pf) (filter (\<lambda>c. tag c = u) (children e)))) \<and>
            length (map (element_to_dict pf) (filter (\<lambda>c. tag c = u) (children e))) =
              length (filter (\<lambda>c. tag c = u) (children e))"
    using node by (simp add: e)
  have one: "py_int ''1'' = Some 1" by code_simp
  have two: "py_int ''2'' = Some 2" by code_simp
  have s1: "strip ''1'' = ''1''" by code_simp
  have s2: "strip ''2'' = ''2''" by code_simp
  have second: "xml_to_json
           (\<lambda>x. Inr (Element ''r'' [] None
                       [Element ''a'' [] (Some ''1'') [], Element ''a'' [] (Some ''2'') []]))
           pf ''<r><a>1</a><a>2</a></r>'' endpoint_name host =
         [(''endpoint'', JStr endpoint_name), (''host'', JStr host),
          (''data'', JDict [(''r'', JDict [(''a'', JList [JInt 1, JInt 2])])])]"
    by (simp add: xml_to_json_def element_to_dict.simps Let_def dict_update_def
        build_children_def add_child_def dict_get_def coerce_text_def one two s1 s2)
  show ?thesis using first second by blast
qed

theorem repeated_tag_becomes_sequence_witness:
  "dict_get
     (case element_to_dict example_float
        (Element ''r'' [] None
          [Element ''a'' [] (Some ''1'') [], Element ''b'' [] None [],
           Element ''a'' [] (Some ''x'') [], Element ''a'' [] (Some ''3'') []])
      of JDict node \<Rightarrow> node | _ \<Rightarrow> []) ''a''
   = Some (JList [JInt 1, JStr ''x'', JInt 3])"
proof -
  let ?e = "Element ''r'' [] None
          [Element ''a'' [] (Some ''1'') [], Element ''b'' [] None [],
           Element ''a'' [] (Some ''x'') [], Element ''a'' [] (Some ''3'') []]"
  have h1: "2 \<le> length (filter (\<lambda>c. tag c = ''a'') (children ?e))" by simp
  have h2: "''a'' \<noteq> ''#text''" by simp
  have e1: "element_to_dict example_float (Element ''a'' [] (Some ''1'') []) = JInt 1" by code_simp
  have e2: "element_to_dict example_float (Element ''a'' [] (Some ''x'') []) = JStr ''x''" by code_simp
  have e3: "element_to_dict example_float (Element ''a'' [] (Some ''3'') []) = JInt 3" by code_simp
  from repeated_tag_becomes_sequence [OF h1 h2, of example_float]
  obtain node where "element_to_dict example_float ?e = JDict node"
    "dict_get node ''a'' = Some (JList (map (element_to_dict example_float)
        (filter (\<lambda>c. tag c = ''a'') (children ?e))))" by blast
  then show ?thesis by (simp add: e1 e2 e3)
qed

text \<open>
  Claim C4. A leaf element (no attributes, no children) with non-blank text converts to
  its trimmed text read as an integer if \<open>int()\<close> accepts it, else as a float if
  \<open>float()\<close> accepts it, else to the trimmed text itself; and in a document without
  duplicate sibling tags that value is what the structured conversion holds at the
  leaf's path of tag names.
\<close>

theorem leaf_text_coercion:
  assumes "is_leaf e" and "\<not> blank_text e"
  shows "element_to_dict pf e =
           (case py_int (trimmed_text e) of
              Some i \<Rightarrow> JInt i
            | None \<Rightarrow> (case pf (trimmed_text e) of
                         Some f \<Rightarrow> JFloat f
                       | None \<Rightarrow> JStr (trimmed_text e))) \<and>
         (\<forall>root path.
            no_duplicate_siblings root \<and> elem_at root path = Some e \<and> ''#text'' \<notin> set path \<longrightarrow>
            json_at (element_to_dict pf root) path =
              Some (case py_int (trimmed_text e) of
                      Some i \<Rightarrow> JInt i
                    | None \<Rightarrow> (case pf (trimmed_text e) of
                                 Some f \<Rightarrow> JFloat f
                               | None \<Rightarrow> JStr (trimmed_text e))))"
proof -
  have leaf: "element_to_dict pf e = coerce_text pf (trimmed_text e)"
    using assms by (rule leaf_conversion)
  show ?thesis
    unfolding leaf using json_at_element_to_dict [of _ _ e pf]
    by (simp add: leaf coerce_text_def)
qed

theorem leaf_text_coercion_witness:
  "element_to_dict example_float (Element ''x'' [] (Some '' 42 '') []) = JInt 42 \<and>
   json_at
     (element_to_dict example_float
        (Element ''r'' [] None
           [Element ''x'' [] (Some '' 42 '') [], Element ''y'' [] (Some ''abc'') []]))
     [''x''] = Some (JInt 42) \<and>
   element_to_dict example_float (Element ''z'' [] (Some example_nbsp_text) []) = JInt 42 \<and>
   element_to_dict example_float (Element ''y'' [] (Some ''abc'') []) = JStr ''abc''"
proof -
  let ?e = "Element ''x'' [] (Some '' 42 '') []"
  let ?root = "Element ''r'' [] None [?e, Element ''y'' [] (Some ''abc'') []]"
  have h1: "is_leaf ?e" by (simp add: is_leaf_def)
  have st: "strip '' 42 '' = ''42''" by code_simp
  have h2: "\<not> blank_text ?e" by (simp add: blank_text_def st)
  have tt: "trimmed_text ?e = ''42''" by (simp add: trimmed_text_def st)
  have pi: "py_int ''42'' = Some 42" by code_simp
  have nd: "no_duplicate_siblings ?root" by simp
  have at: "elem_at ?root [''x''] = Some ?e" by simp
  have np: "''#text'' \<notin> set [''x'']" by simp
  from leaf_text_coercion [OF h1 h2, of example_float] nd at np
  have first: "element_to_dict example_float ?e = JInt 42 \<and>
     json_at (element_to_dict example_float ?root) [''x''] = Some (JInt 42)"
    unfolding tt pi by (metis option.simps(5))
  let ?z = "Element ''z'' [] (Some example_nbsp_text) []"
  have z1: "is_leaf ?z" by (simp add: is_leaf_def)
  have zs: "strip example_nbsp_text = ''42''" by code_simp
  have z2: "\<not> blank_text ?z" by (simp add: blank_text_def zs)
  have zt: "trimmed_text ?z = ''42''" by (simp add: trimmed_text_def zs)
  have second: "element_to_dict example_float ?z = JInt 42"
    using leaf_text_coercion [OF z1 z2, of example_float] unfolding zt pi by simp
  let ?y = "Element ''y'' [] (Some ''abc'') []"
  have y1: "is_leaf ?y" by (simp add: is_leaf_def)
  have ys: "strip ''abc'' = ''abc''" by code_simp
  have y2: "\<not> blank_text ?y" by (simp add: blank_text_def ys)
  have yt: "trimmed_text ?y = ''abc''" by (simp add: trimmed_text_def ys)
  have yi: "py_int ''abc'' = None" by code_simp
  have yf: "example_float ''abc'' = None" by code_simp
  have third: "element_to_dict example_float ?y = JStr ''abc''"
    using leaf_text_coercion [OF y1 y2, of example_float] unfolding yt yi yf by simp
  show ?thesis using first second third by blast
qed

lemma int_literal_digit_limit:
  "max_str_digits < length (filter is_digit ds) \<Longrightarrow> int_literal ds = None"
  by (simp add: int_literal_def split: option.splits)

text \<open>
  Claim C9, as the code has it. An element with no attributes, no children and no
  non-blank text converts to the null value; its tag is still a key of the parent's
  converted mapping, holding null when no sibling shares the tag.
\<close>

theorem empty_element_is_null_under_parent:
  assumes "is_leaf c" and "blank_text c" and "c \<in> set (children e)"
    and "tag c \<noteq> ''#text''"
  shows "element_to_dict pf c = JNone \<and>
         (\<exists>node. element_to_dict pf e = JDict node \<and> tag c \<in> set (dict_keys node) \<and>
            (filter (\<lambda>d. tag d = tag c) (children e) = [c] \<longrightarrow>
               dict_get node (tag c) = Some JNone))"
proof -
  obtain t attrs tx cs where e: "e = Element t attrs tx cs" by (cases e)
  have null: "element_to_dict pf c = JNone" using assms(1,2) by (rule empty_conversion)
  have "tag c \<in> tag ` set cs" using assms(3) by (auto simp: e)
  then obtain node where node: "element_to_dict pf (Element t attrs tx cs) = JDict node"
      "dict_get node (tag c) =
         Some (sequence_or_single (map (element_to_dict pf) (filter (\<lambda>d. tag d = tag c) cs)))"
    using children_key_value [of "tag c" cs pf t attrs tx] assms(4) by blast
  have key: "tag c \<in> set (dict_keys node)" using node(2) by (rule dict_get_Some_key)
  have "filter (\<lambda>d. tag d = tag c) cs = [c] \<longrightarrow> dict_get node (tag c) = Some JNone"
    using node(2) null by (auto simp: sequence_or_single_def)
  then show ?thesis using null node(1) key by (auto simp: e)
qed

theorem empty_element_is_null_under_parent_witness:
  "element_to_dict example_float (Element ''a'' [] (Some ''  '') []) = JNone \<and>
   (\<exists>node. element_to_dict example_float
             (Element ''r'' [] None [Element ''a'' [] (Some ''  '') []]) = JDict node \<and>
           ''a'' \<in> set (dict_keys node) \<and> dict_get node ''a'' = Some JNone)"
proof -
  let ?c = "Element ''a'' [] (Some ''  '') []"
  let ?e = "Element ''r'' [] None [?c]"
  have st: "strip ''  '' = []" by code_simp
  have h1: "is_leaf ?c" by (simp add: is_leaf_def)
  have h2: "blank_text ?c" by (simp add: blank_text_def st)
  have h3: "?c \<in> set (children ?e)" by simp
  have h4: "tag ?c \<noteq> ''#text''" by simp
  have f: "filter (\<lambda>d. tag d = tag ?c) (children ?e) = [?c]" by simp
  from empty_element_is_null_under_parent [OF h1 h2 h3 h4, of example_float] f
  show ?thesis by auto
qed

theorem empty_element_key_present_counterexample:
  "is_leaf (Element ''a'' [] None []) \<and> blank_text (Element ''a'' [] None []) \<and>
   element_to_dict example_float (Element ''r'' [] None [Element ''a'' [] None []]) =
     JDict [(''a'', JNone)] \<and>
   ''a'' \<in> set (dict_keys [(''a'', JNone :: int json)])"
  by (simp add: is_leaf_def blank_text_def element_to_dict.simps dict_update_def
      build_children_def add_child_def dict_get_def dict_keys_def)

text \<open>
  Claim C6. When the text does not parse, \<open>xml_to_json\<close> returns a record with the
  endpoint, the host and an \<open>error\<close> field describing the parse failure, and no
  \<open>data\<close>; \<open>xml_to_metrics\<close> returns the endpoint and host fields only. Both return a
  value: the parse error does not leave either function.
\<close>

theorem parse_failure_is_contained:
  assumes "fromstring xml_text = Inl msg"
  shows "xml_to_json fromstring pf xml_text endpoint_name host =
           [(''endpoint'', JStr endpoint_name), (''host'', JStr host),
            (''error'', JStr (''XML parsing failed: '' @ msg))] \<and>
         dict_get (xml_to_json fromstring pf xml_text endpoint_name host) ''data'' = None \<and>
         xml_to_metrics fromstring pf xml_text endpoint_name host =
           [(''endpoint'', JStr endpoint_name), (''host'', JStr host)]"
  using assms by (simp add: xml_to_json_def xml_to_metrics_def dict_get_def)

theorem parse_failure_is_contained_witness:
  "xml_to_json (\<lambda>s. if s = ''<a>'' then Inl ''no element found: line 1, column 3''
                     else Inr (Element ''a'' [] None []))
     example_float ''<a>'' ''system'' ''10.0.0.5'' =
     [(''endpoint'', JStr ''system''), (''host'', JStr ''10.0.0.5''),
      (''error'', JStr ''XML parsing failed: no element found: line 1, column 3'')] \<and>
   xml_to_metrics (\<lambda>s. if s = ''<a>'' then Inl ''no element found: line 1, column 3''
                     else Inr (Element ''a'' [] None []))
     example_float ''<a>'' ''system'' ''10.0.0.5'' =
     [(''endpoint'', JStr ''system''), (''host'', JStr ''10.0.0.5'')]"
proof -
  let ?p = "\<lambda>s. if s = ''<a>'' then Inl ''no element found: line 1, column 3''
                     else Inr (Element ''a'' [] None [])"
  have h: "?p ''<a>'' = Inl ''no element found: line 1, column 3''" by simp
  from parse_failure_is_contained [of ?p "''<a>''" _ example_float "''system''" "''10.0.0.5''", OF h]
  show ?thesis by simp
qed

subsection \<open>The metric walk\<close>

declare extract_metrics.simps [simp del]

lemma dotted_eq_Nil: "list_all (\<lambda>t. t \<noteq> []) pre \<Longrightarrow> dotted pre = [] \<longleftrightarrow> pre = []"
  by (induction pre rule: dotted.induct) auto

lemma dotted_snoc: "pre \<noteq> [] \<Longrightarrow> dotted (pre @ [t]) = dotted pre @ ''.'' @ t"
  by (induction pre rule: dotted.induct) auto

lemma metric_path_of_dotted:
  "list_all (\<lambda>t. t \<noteq> []) pre \<Longrightarrow> metric_path_of (dotted pre) t = dotted (pre @ [t])"
  by (cases "pre = []") (simp_all add: metric_path_of_def dotted_eq_Nil dotted_snoc)

lemma keys_record_metric:
  "set (dict_keys (record_metric pf m c mp)) =
     set (dict_keys m) \<union> (if has_float_text pf c then {''metric_name:'' @ mp} else {})"
  by (auto simp: record_metric_def has_float_text_def blank_text_def trimmed_text_def
      keys_dict_set split: option.splits)

lemma extract_metrics_no_children: "children c = [] \<Longrightarrow> extract_metrics pf m c pp = m"
  by (cases c) (simp add: extract_metrics.simps)

lemma descendants_no_children: "children c = [] \<Longrightarrow> descendants pre c = []"
  by (cases c) simp

lemma metric_keys_image:
  "{''metric_name:'' @ dotted p | p c. (p, c) \<in> set L \<and> has_float_text pf c} =
     (\<lambda>x. ''metric_name:'' @ dotted (fst x)) ` set (filter (\<lambda>x. has_float_text pf (snd x)) L)"
  by force

lemma keys_extract_metrics:
  "list_all (\<lambda>(p, c). tag c \<noteq> []) (descendants pre e) \<Longrightarrow> list_all (\<lambda>t. t \<noteq> []) pre \<Longrightarrow>
   set (dict_keys (extract_metrics pf m e (dotted pre))) =
     set (dict_keys m) \<union>
     {''metric_name:'' @ dotted p | p c. (p, c) \<in> set (descendants pre e) \<and> has_float_text pf c}"
proof (induction e arbitrary: m pre)
  case (Element t attrs tx cs)
  let ?K = "\<lambda>L. {''metric_name:'' @ dotted p | p c. (p, c) \<in> set L \<and> has_float_text pf c}"
  let ?sub = "\<lambda>c. (pre @ [tag c], c) # descendants (pre @ [tag c]) c"
  let ?step = "\<lambda>m child.
              let metric_path = metric_path_of (dotted pre) (tag child);
                  m1 = record_metric pf m child metric_path
              in if children child \<noteq> [] then extract_metrics pf m1 child metric_path
                 else m1"
  have wf: "\<And>c. c \<in> set cs \<Longrightarrow>
              tag c \<noteq> [] \<and> list_all (\<lambda>(p, c). tag c \<noteq> []) (descendants (pre @ [tag c]) c)"
    using Element.prems(1) by (auto simp: list_all_iff)
  have step: "set (dict_keys (?step m c)) = set (dict_keys m) \<union> ?K (?sub c)"
    if c: "c \<in> set cs" for c m
  proof -
    have pre': "list_all (\<lambda>t. t \<noteq> []) (pre @ [tag c])"
      using Element.prems(2) wf [OF c] by simp
    have mp: "metric_path_of (dotted pre) (tag c) = dotted (pre @ [tag c])"
      using Element.prems(2) by (rule metric_path_of_dotted)
    let ?m1 = "record_metric pf m c (dotted (pre @ [tag c]))"
    have same: "?step m c = extract_metrics pf ?m1 c (dotted (pre @ [tag c]))"
      by (simp add: mp Let_def extract_metrics_no_children)
    have "set (dict_keys (extract_metrics pf ?m1 c (dotted (pre @ [tag c])))) =
            set (dict_keys ?m1) \<union> ?K (descendants (pre @ [tag c]) c)"
      using Element.IH [OF c _ pre'] wf [OF c] by blast
    then show ?thesis
      unfolding same by (auto simp: keys_record_metric)
  qed
  have fold: "set (dict_keys (foldl ?step m cs')) =
                set (dict_keys m) \<union> ?K (concat (map ?sub cs'))"
    if "set cs' \<subseteq> set cs" for cs' m
    using that
  proof (induction cs' arbitrary: m)
    case Nil
    show ?case by simp
  next
    case (Cons c cs')
    have c: "c \<in> set cs" using Cons.prems by simp
    have "set (dict_keys (foldl ?step (?step m c) cs')) =
            set (dict_keys (?step m c)) \<union> ?K (concat (map ?sub cs'))"
      using Cons.prems by (intro Cons.IH) simp
    then have "set (dict_keys (foldl ?step (?step m c) cs')) =
            set (dict_keys m) \<union> ?K (?sub c) \<union> ?K (concat (map ?sub cs'))"
      unfolding step [OF c] .
    moreover have "?K (?sub c) \<union> ?K (concat (map ?sub cs')) = ?K (concat (map ?sub (c # cs')))"
      unfolding metric_keys_image by (simp add: image_Un)
    ultimately show ?case by (simp add: Un_assoc)
  qed
  have "extract_metrics pf m (Element t attrs tx cs) (dotted pre) = foldl ?step m cs"
    by (simp add: extract_metrics.simps)
  moreover have "descendants pre (Element t attrs tx cs) = concat (map ?sub cs)" by simp
  ultimately show ?case using fold [of cs m] by simp
qed

text \<open>
  Claim C5. For a document that parses (with non-empty tag names), the keys of the metric
  conversion are \<open>endpoint\<close>, \<open>host\<close> and \<open>metric_name:\<close> followed by the dotted path of
  each element below the root whose trimmed text is non-empty and accepted by
  \<open>float()\<close>: a path has an entry exactly when an element at that path has such text.
  Every element below the root is looked at, whatever the text of its ancestors.
\<close>

theorem metric_entry_iff_float_text:
  assumes "fromstring xml_text = Inr root" and "well_formed_tags root"
  shows "set (dict_keys (xml_to_metrics fromstring pf xml_text endpoint_name host)) =
           {''endpoint'', ''host''} \<union>
           {''metric_name:'' @ dotted p | p c.
              (p, c) \<in> set (descendants [] root) \<and> has_float_text pf c} \<and>
         ((''metric_name:'' @ path
             \<in> set (dict_keys (xml_to_metrics fromstring pf xml_text endpoint_name host))) =
          (\<exists>p c. (p, c) \<in> set (descendants [] root) \<and> dotted p = path \<and> has_float_text pf c))"
proof -
  define m0 :: "'a json dict"
    where "m0 = [(''endpoint'', JStr endpoint_name), (''host'', JStr host)]"
  define K where "K = {''metric_name:'' @ dotted p | p c.
              (p, c) \<in> set (descendants [] root) \<and> has_float_text pf c}"
  have k0: "set (dict_keys m0) = {''endpoint'', ''host''}"
    by (simp add: m0_def dict_keys_def)
  have wf: "list_all (\<lambda>(p, c). tag c \<noteq> []) (descendants [] root)"
    using assms(2) by (simp add: well_formed_tags_def)
  have "set (dict_keys (extract_metrics pf m0 root (dotted []))) = set (dict_keys m0) \<union> K"
    unfolding K_def by (rule keys_extract_metrics [OF wf]) simp
  then have ex: "set (dict_keys (extract_metrics pf m0 root [])) = {''endpoint'', ''host''} \<union> K"
    by (simp add: k0)
  have run: "xml_to_metrics fromstring pf xml_text endpoint_name host =
               extract_metrics pf m0 root []"
    using assms(1) by (simp add: xml_to_metrics_def m0_def)
  have keys: "set (dict_keys (xml_to_metrics fromstring pf xml_text endpoint_name host)) =
                {''endpoint'', ''host''} \<union> K"
    unfolding run by (rule ex)
  have inK: "(''metric_name:'' @ path \<in> K) =
          (\<exists>p c. (p, c) \<in> set (descendants [] root) \<and> dotted p = path \<and> has_float_text pf c)"
    unfolding K_def by auto
  have "(''metric_name:'' @ path \<in> {''endpoint'', ''host''} \<union> K) =
          (''metric_name:'' @ path \<in> K)"
    by simp
  then have "(''metric_name:'' @ path
             \<in> set (dict_keys (xml_to_metrics fromstring pf xml_text endpoint_name host))) =
          (\<exists>p c. (p, c) \<in> set (descendants [] root) \<and> dotted p = path \<and> has_float_text pf c)"
    unfolding keys inK [symmetric] .
  then show ?thesis using keys unfolding K_def by blast
qed

theorem metric_entry_iff_float_text_witness:
  "set (dict_keys (xml_to_metrics
     (\<lambda>s. Inr (Element ''r'' [] (Some ''5'')
                 [Element ''a'' [] (Some ''x'')
                    [Element ''b'' [] (Some ''n/a'') [], Element ''c'' [] (Some '' 7 '') []]]))
     example_float ''<r>5<a>x<b>n/a</b><c> 7 </c></a></r>'' ''system'' ''10.0.0.5''))
   = {''endpoint'', ''host'', ''metric_name:a.c''}"
proof -
  let ?c = "Element ''c'' [] (Some '' 7 '') []"
  let ?b = "Element ''b'' [] (Some ''n/a'') []"
  let ?a = "Element ''a'' [] (Some ''x'') [?b, ?c]"
  let ?root = "Element ''r'' [] (Some ''5'') [?a]"
  let ?p = "\<lambda>s :: string. (Inr ?root :: string + element)"
  have h1: "?p ''<r>5<a>x<b>n/a</b><c> 7 </c></a></r>'' = Inr ?root" by simp
  have h2: "well_formed_tags ?root" by (simp add: well_formed_tags_def)
  have fa: "\<not> has_float_text example_float ?a" by code_simp
  have fb: "\<not> has_float_text example_float ?b" by code_simp
  have fc: "has_float_text example_float ?c" by code_simp
  have d: "descendants [] ?root = [([''a''], ?a), ([''a'', ''b''], ?b), ([''a'', ''c''], ?c)]"
    by simp
  have "{''metric_name:'' @ dotted p | p c.
              (p, c) \<in> set (descendants [] ?root) \<and> has_float_text example_float c}
        = {''metric_name:a.c''}"
    unfolding metric_keys_image d using fa fb fc by simp
  then have "{''endpoint'', ''host''} \<union>
        {''metric_name:'' @ dotted p | p c.
              (p, c) \<in> set (descendants [] ?root) \<and> has_float_text example_float c}
        = {''endpoint'', ''host'', ''metric_name:a.c''}"
    by (simp only: insert_is_Un [symmetric] Un_insert_left Un_empty_left Un_commute)
  with conjunct1 [OF metric_entry_iff_float_text
      [of ?p "''<r>5<a>x<b>n/a</b><c> 7 </c></a></r>''" ?root example_float
          "''system''" "''10.0.0.5''", OF h1 h2]]
  show ?thesis by (simp only:)
qed

section \<open>Properties of the job-polling strategy\<close>

lemma lower_medium: "lower ''medium'' = ''medium''" by code_simp
lemma lower_low: "lower ''low'' = ''low''" by code_simp
lemma lower_informational: "lower ''informational'' = ''informational''" by code_simp
lemma lower_empty: "lower [] = []" by (simp add: lower_def)

lemma process_entry_keeps:
  "process_entry capitalize host entry =
     (if keeps_entry entry
      then [make_event capitalize host (logid_of entry) (findtext entry ''severity'' []) entry]
      else [])"
  by (auto simp: process_entry_def keeps_entry_def logid_of_def Let_def split: option.splits)

lemma concat_map_if:
  "concat (map (\<lambda>x. if P x then [f x] else []) xs) = map f (filter P xs)"
  by (induction xs) auto

lemma process_entries_filter:
  "process_entries capitalize host xml_root =
     map (\<lambda>entry. make_event capitalize host (logid_of entry) (findtext entry ''severity'' []) entry)
       (filter keeps_entry (iter_tag ''entry'' xml_root))"
  unfolding process_entries_def process_entry_keeps by (rule concat_map_if)

lemma process_entries_kept:
  "process_entries capitalize host xml_root = kept_records capitalize host xml_root"
  unfolding kept_records_def by (rule process_entries_filter)

text \<open>
  Claim C2. The events taken from a finished job's document are those of its
  \<open>entry\<close> elements, in document order, that have a non-empty \<open>logid\<close> attribute and a
  severity text equal to "high" or "critical" once lower-cased. An entry whose severity is
  "medium", "low" or "informational", or that has no severity element, is dropped, and so
  is an entry without the \<open>logid\<close> attribute, whatever its severity.
\<close>

theorem severity_filter:
  "(process_entries capitalize host xml_root :: 'f json list) =
     map (\<lambda>entry. make_event capitalize host (logid_of entry) (findtext entry ''severity'' []) entry)
       (filter keeps_entry (iter_tag ''entry'' xml_root)) \<and>
   (process_entry capitalize host entry \<noteq> ([] :: 'f json list) \<longleftrightarrow>
      (\<exists>logid. dict_get (attrib entry) ''logid'' = Some logid \<and> logid \<noteq> []) \<and>
      (lower (findtext entry ''severity'' []) = ''high'' \<or>
       lower (findtext entry ''severity'' []) = ''critical'')) \<and>
   (findtext entry ''severity'' [] \<in> {''medium'', ''low'', ''informational''} \<longrightarrow>
      process_entry capitalize host entry = ([] :: 'f json list)) \<and>
   (find (\<lambda>c. tag c = ''severity'') (children entry) = None \<longrightarrow>
      process_entry capitalize host entry = ([] :: 'f json list)) \<and>
   (dict_get (attrib entry) ''logid'' = None \<longrightarrow> process_entry capitalize host entry = ([] :: 'f json list))"
proof -
  have a: "process_entry capitalize host entry \<noteq> ([] :: 'f json list) \<longleftrightarrow>
      (\<exists>logid. dict_get (attrib entry) ''logid'' = Some logid \<and> logid \<noteq> []) \<and>
      (lower (findtext entry ''severity'' []) = ''high'' \<or>
       lower (findtext entry ''severity'' []) = ''critical'')"
    by (simp add: process_entry_keeps keeps_entry_def)
  have b: "findtext entry ''severity'' [] \<in> {''medium'', ''low'', ''informational''} \<longrightarrow>
      process_entry capitalize host entry = ([] :: 'f json list)"
    by (auto simp: process_entry_keeps keeps_entry_def lower_medium lower_low
        lower_informational)
  have c: "find (\<lambda>c. tag c = ''severity'') (children entry) = None \<longrightarrow>
      process_entry capitalize host entry = ([] :: 'f json list)"
    by (simp add: process_entry_keeps keeps_entry_def findtext_def lower_empty)
  have d: "dict_get (attrib entry) ''logid'' = None \<longrightarrow> process_entry capitalize host entry = ([] :: 'f json list)"
    by (simp add: process_entry_def)
  show ?thesis using process_entries_filter [of capitalize host xml_root, where ?'a = 'f] a b c d by blast
qed

theorem severity_filter_witness:
  "process_entries example_capitalize (Some ''10.0.0.5'') example_fin_doc =
     [make_event example_capitalize (Some ''10.0.0.5'') ''1'' ''High'' example_entry_high :: int json] \<and>
   process_entry example_capitalize (Some ''10.0.0.5'') example_entry_high \<noteq> ([] :: int json list) \<and>
   process_entry example_capitalize (Some ''10.0.0.5'') example_entry_low = ([] :: int json list) \<and>
   process_entry example_capitalize (Some ''10.0.0.5'') (Element ''entry'' [(''logid'', ''3'')] None []) =
     ([] :: int json list) \<and>
   process_entry example_capitalize (Some ''10.0.0.5'')
     (Element ''entry'' [] None [Element ''severity'' [] (Some ''critical'') []]) =
     ([] :: int json list)"
proof -
  let ?h = "Some ''10.0.0.5''"
  let ?low = "Element ''entry'' [(''logid'', ''2'')] None [Element ''severity'' [] (Some ''low'') []]"
  let ?nosev = "Element ''entry'' [(''logid'', ''3'')] None []"
  let ?noid = "Element ''entry'' [] None [Element ''severity'' [] (Some ''critical'') []]"
  have it: "iter_tag ''entry'' example_fin_doc = [example_entry_high, example_entry_low]"
    by code_simp
  have lh: "lower ''High'' = ''high''" by code_simp
  have ll: "lower ''Low'' = ''low''" by code_simp
  have kh: "keeps_entry example_entry_high"
    by (simp add: keeps_entry_def example_entry_high_def dict_get_def findtext_def lh)
  have kl: "\<not> keeps_entry example_entry_low"
    by (simp add: keeps_entry_def example_entry_low_def dict_get_def findtext_def ll)
  have lid: "logid_of example_entry_high = ''1''"
    by (simp add: logid_of_def example_entry_high_def dict_get_def)
  have sev: "findtext example_entry_high ''severity'' [] = ''High''"
    by (simp add: findtext_def example_entry_high_def)
  have p1: "process_entries example_capitalize ?h example_fin_doc =
     [make_event example_capitalize ?h ''1'' ''High'' example_entry_high :: int json]"
    using severity_filter [of example_capitalize ?h example_fin_doc example_entry_high, where ?'f = int]
    by (simp add: it kh kl lid sev)
  have kh': "(\<exists>logid. dict_get (attrib example_entry_high) ''logid'' = Some logid \<and> logid \<noteq> []) \<and>
      (lower (findtext example_entry_high ''severity'' []) = ''high'' \<or>
       lower (findtext example_entry_high ''severity'' []) = ''critical'')"
    using kh by (simp add: keeps_entry_def)
  have kl': "\<not> ((\<exists>logid. dict_get (attrib example_entry_low) ''logid'' = Some logid \<and> logid \<noteq> []) \<and>
      (lower (findtext example_entry_low ''severity'' []) = ''high'' \<or>
       lower (findtext example_entry_low ''severity'' []) = ''critical''))"
    using kl by (simp add: keeps_entry_def)
  have p2: "process_entry example_capitalize ?h example_entry_high \<noteq> ([] :: int json list)"
    using severity_filter [of example_capitalize ?h example_fin_doc example_entry_high, where ?'f = int] kh'
    by blast
  have p3: "process_entry example_capitalize ?h example_entry_low = ([] :: int json list)"
    using severity_filter [of example_capitalize ?h example_fin_doc example_entry_low, where ?'f = int] kl'
    by blast
  have "find (\<lambda>c. tag c = ''severity'') (children ?nosev) = None" by simp
  then have p4: "process_entry example_capitalize ?h ?nosev = ([] :: int json list)"
    using severity_filter [of example_capitalize ?h example_fin_doc ?nosev, where ?'f = int] by blast
  have "dict_get (attrib ?noid) ''logid'' = None" by (simp add: dict_get_def)
  then have p5: "process_entry example_capitalize ?h ?noid = ([] :: int json list)"
    using severity_filter [of example_capitalize ?h example_fin_doc ?noid, where ?'f = int] by blast
  show ?thesis using p1 p2 p3 p4 p5 by blast
qed

subsection \<open>What the poll loop returns\<close>

lemma process_entries_mem:
  "ev \<in> set (process_entries capitalize host d) \<Longrightarrow>
   \<exists>entry. keeps_entry entry \<and>
     ev = make_event capitalize host (logid_of entry) (findtext entry ''severity'' []) entry"
  unfolding process_entries_filter by auto

lemma poll_job_events:
  "poll_job e host url k n = Inr (Some evs, n') \<Longrightarrow> \<exists>d. evs = process_entries (str_capitalize e) host d"
proof (induction k arbitrary: n)
  case 0
  then show ?case by simp
next
  case (Suc k)
  then show ?case by (auto split: sum.splits if_splits)
qed

lemma process_jobs_events:
  "process_jobs e host urls evs0 n = Inr (evs :: 'f json list, n') \<Longrightarrow>
   (\<And>ev. ev \<in> set evs0 \<Longrightarrow> \<exists>d. ev \<in> set (process_entries (str_capitalize e) host d)) \<Longrightarrow>
   ev \<in> set evs \<Longrightarrow> \<exists>d. ev \<in> set (process_entries (str_capitalize e) host d)"
proof (induction urls arbitrary: evs0 n)
  case Nil
  then show ?case by simp
next
  case (Cons url urls)
  from Cons.prems(1) obtain r :: "'f json list option" and m
    where r: "poll_job e host url 11 n = Inr (r, m)"
    by (auto split: sum.splits)
  show ?case
  proof (cases r)
    case None
    then have "process_jobs e host urls evs0 m = Inr (evs, n')"
      using Cons.prems(1) r by simp
    then show ?thesis using Cons.IH [of evs0 m] Cons.prems(2,3) by blast
  next
    case (Some events)
    then have run: "process_jobs e host urls (evs0 @ events) m = Inr (evs, n')"
      using Cons.prems(1) r by simp
    obtain d where d: "events = process_entries (str_capitalize e) host d"
      using poll_job_events r Some by blast
    have "\<And>x. x \<in> set (evs0 @ events) \<Longrightarrow> \<exists>d. x \<in> set (process_entries (str_capitalize e) host d)"
      using Cons.prems(2) d by auto
    then show ?thesis using Cons.IH [OF run _ Cons.prems(3)] by blast
  qed
qed

lemma custom_GET_events:
  assumes "custom_GET_api_threat_traffic e api_url n = Inr (events, n')" and "ev \<in> set events"
  shows "\<exists>entry. keeps_entry entry \<and>
           ev = make_event (str_capitalize e) (url_hostname (urlparse e api_url)) (logid_of entry)
                  (findtext entry ''severity'' []) entry"
proof -
  from assms(1) obtain urls m where
    "process_jobs e (url_hostname (urlparse e api_url)) urls [] m = Inr (events, n')"
    by (auto simp: custom_GET_api_threat_traffic_def Let_def split: sum.splits)
  then have "\<exists>d. ev \<in> set (process_entries (str_capitalize e) (url_hostname (urlparse e api_url)) d)"
    using process_jobs_events [of e _ urls "[]" m events n' ev] assms(2) by simp
  then show ?thesis using process_entries_mem by blast
qed

lemma example_run:
  "custom_GET_api_threat_traffic example_env ''https://10.0.0.5/api/?key=K'' 0 =
     Inr ([make_event example_capitalize (Some ''10.0.0.5'') ''1'' ''High'' example_entry_high :: int json], 13)"
  by code_simp

text \<open>
  Claim C10. Every record the job-polling strategy returns has its \<open>severity\<close> field set
  to the constant \<open>warn\<close>; it comes from a kept entry, whose own severity text is the
  start of the record's \<open>message\<close>, the other fields being the entry's generation time and
  the host of the request.
\<close>

theorem returned_severity_is_warn:
  assumes "custom_GET_api_threat_traffic e api_url n = Inr (events, n')" and "ev \<in> set events"
  shows "json_field ev ''severity'' = Some (JStr ''warn'') \<and>
         (\<exists>entry rest.
            (lower (findtext entry ''severity'' []) = ''high'' \<or>
             lower (findtext entry ''severity'' []) = ''critical'') \<and>
            json_field ev ''message'' =
              Some (JStr (findtext entry ''severity'' [] @ '' :: ['' @ rest)) \<and>
            json_field ev ''happenedOn'' = Some (JStr (findtext entry ''time_generated'' [])) \<and>
            json_field ev ''source'' = Some (host_value (url_hostname (urlparse e api_url)))) \<and>
         (\<exists>d. ev = JDict d \<and> dict_keys d = [''happenedOn'', ''severity'', ''source'', ''message''])"
proof -
  obtain entry where k: "keeps_entry entry" and
    ev: "ev = make_event (str_capitalize e) (url_hostname (urlparse e api_url)) (logid_of entry)
                  (findtext entry ''severity'' []) entry"
    using custom_GET_events [OF assms] by blast
  have sev: "lower (findtext entry ''severity'' []) = ''high'' \<or>
             lower (findtext entry ''severity'' []) = ''critical''"
    using k by (simp add: keeps_entry_def)
  have 1: "json_field ev ''severity'' = Some (JStr ''warn'')"
    by (simp add: ev make_event_def json_field_def dict_get_def)
  have 2: "\<exists>rest. json_field ev ''message'' =
              Some (JStr (findtext entry ''severity'' [] @ '' :: ['' @ rest))"
    by (simp add: ev make_event_def json_field_def dict_get_def)
  have 3: "json_field ev ''happenedOn'' = Some (JStr (findtext entry ''time_generated'' []))"
    by (simp add: ev make_event_def json_field_def dict_get_def)
  have 4: "json_field ev ''source'' = Some (host_value (url_hostname (urlparse e api_url)))"
    by (simp add: ev make_event_def json_field_def dict_get_def)
  have 5: "\<exists>d. ev = JDict d \<and> dict_keys d = [''happenedOn'', ''severity'', ''source'', ''message'']"
    by (simp add: ev make_event_def dict_keys_def)
  show ?thesis using sev 1 2 3 4 5 by blast
qed

theorem returned_severity_is_warn_witness:
  "json_field (make_event example_capitalize (Some ''10.0.0.5'') ''1'' ''High'' example_entry_high :: int json)
     ''severity'' = Some (JStr ''warn'') \<and>
   findtext example_entry_high ''severity'' [] = ''High''"
proof -
  let ?ev = "make_event example_capitalize (Some ''10.0.0.5'') ''1'' ''High'' example_entry_high :: int json"
  have mem: "?ev \<in> set [?ev]" by simp
  have "json_field ?ev ''severity'' = Some (JStr ''warn'')"
    using returned_severity_is_warn [OF example_run mem] by blast
  moreover have "findtext example_entry_high ''severity'' [] = ''High''"
    by (simp add: findtext_def example_entry_high_def)
  ultimately show ?thesis by blast
qed

subsection \<open>The poll loop against the protocol\<close>

lemma find_map_comp: "find P (map f xs) = map_option f (find (P \<circ> f) xs)"
  by (induction xs) auto

lemma find_upt_Suc:
  "find P [0..<Suc k] = (if P 0 then Some 0 else map_option Suc (find (P \<circ> Suc) [0..<k]))"
proof -
  have "[0..<Suc k] = 0 # map Suc [0..<k]"
    by (simp add: upt_conv_Cons map_Suc_upt del: upt_Suc)
  then show ?thesis by (simp add: find_map_comp del: upt_Suc)
qed

lemma find_upt_first:
  "c < k \<Longrightarrow> P c \<Longrightarrow> \<forall>i<c. \<not> P i \<Longrightarrow> find P [0..<k] = Some c"
  unfolding find_Some_iff by (rule exI [of _ c]) simp

lemma find_upt_none: "\<forall>i<k. \<not> P i \<Longrightarrow> find P [0..<k] = None"
  unfolding find_None_iff by simp

lemma poll_job_step:
  "(poll_job e host url (Suc k) n :: exc + ('f json list option \<times> nat)) =
     (case poll_state_at e url n of
        Failed err \<Rightarrow> Inl err
      | Finished d \<Rightarrow> Inr (Some (kept_records (str_capitalize e) host d), Suc n)
      | Pending \<Rightarrow> poll_job e host url k (Suc n))"
  by (simp add: poll_state_at_def process_entries_kept split: sum.splits)

lemma poll_job_spec:
  "(poll_job e host url k n :: exc + ('f json list option \<times> nat)) =
     (case find (\<lambda>i. poll_state_at e url (n + i) \<noteq> Pending) [0..<k] of
        None \<Rightarrow> Inr (None, n + k)
      | Some i \<Rightarrow>
          (case poll_state_at e url (n + i) of
             Finished d \<Rightarrow> Inr (Some (kept_records (str_capitalize e) host d), n + i + 1)
           | Failed err \<Rightarrow> Inl err
           | Pending \<Rightarrow> Inr (None, n + k)))"
proof (induction k arbitrary: n)
  case 0
  show ?case by simp
next
  case (Suc k)
  show ?case
  proof (cases "poll_state_at e url n = Pending")
    case False
    then have "find (\<lambda>i. poll_state_at e url (n + i) \<noteq> Pending) [0..<Suc k] = Some 0"
      by (simp only: find_upt_Suc) simp
    then show ?thesis
      using False unfolding poll_job_step by (simp split: poll_state.splits)
  next
    case True
    have shift: "find (\<lambda>i. poll_state_at e url (n + i) \<noteq> Pending) [0..<Suc k] =
                   map_option Suc (find (\<lambda>i. poll_state_at e url (Suc n + i) \<noteq> Pending) [0..<k])"
      using True by (simp only: find_upt_Suc) (simp add: comp_def)
    show ?thesis
      unfolding poll_job_step shift Suc.IH using True
      by (simp split: option.splits poll_state.splits)
  qed
qed

lemma poll_job_spec_poll:
  "(case (poll_job e host url 11 n :: exc + ('f json list option \<times> nat)) of
      Inl err \<Rightarrow> Inl err
    | Inr (None, m) \<Rightarrow> Inr ([], m)
    | Inr (Some events, m) \<Rightarrow> Inr (events, m)) = spec_poll e host url n"
  unfolding poll_job_spec spec_poll_def
  by (simp split: option.splits poll_state.splits)

lemma process_jobs_spec:
  "(process_jobs e host urls evs0 n :: exc + ('f json list \<times> nat)) =
     (case spec_jobs e host urls n of
        Inl err \<Rightarrow> Inl err
      | Inr (events, m) \<Rightarrow> Inr (evs0 @ events, m))"
proof (induction urls arbitrary: evs0 n)
  case Nil
  show ?case by simp
next
  case (Cons url urls)
  note sp = poll_job_spec_poll [of e host url n, where ?'f = 'f, symmetric]
  show ?case
    unfolding process_jobs.simps spec_jobs.simps sp
    by (simp add: Cons.IH split: sum.splits option.splits prod.splits)
qed

lemma custom_GET_spec:
  "(custom_GET_api_threat_traffic e api_url n :: exc + ('f json list \<times> nat)) =
     spec_strategy e api_url n"
  unfolding custom_GET_api_threat_traffic_def spec_strategy_def Let_def process_jobs_spec
  by (simp add: job_ids_of_def iter_tag_def comp_def split: sum.splits prod.splits)

lemma spec_poll_bound:
  "(spec_poll e host url n :: exc + ('f json list \<times> nat)) = Inr (events, m) \<Longrightarrow> m \<le> n + 11"
proof (cases "find (\<lambda>i. poll_state_at e url (n + i) \<noteq> Pending) [0..<11]")
  case None
  assume "(spec_poll e host url n :: exc + ('f json list \<times> nat)) = Inr (events, m)"
  then show ?thesis using None by (simp add: spec_poll_def)
next
  case (Some i)
  assume a: "(spec_poll e host url n :: exc + ('f json list \<times> nat)) = Inr (events, m)"
  have "i \<in> set [0..<11]" using Some find_Some_mem by fastforce
  then have "i < 11" by simp
  then show ?thesis using a Some by (auto simp: spec_poll_def split: poll_state.splits)
qed

lemma spec_jobs_bound:
  "(spec_jobs e host urls n :: exc + ('f json list \<times> nat)) = Inr (events, m) \<Longrightarrow>
   m \<le> n + 11 * length urls"
proof (induction urls arbitrary: n events m)
  case Nil
  then show ?case by simp
next
  case (Cons url urls)
  from Cons.prems obtain ev1 :: "'f json list" and n1 where
    p: "spec_poll e host url n = Inr (ev1, n1)"
    by (auto split: sum.splits)
  with Cons.prems obtain ev2 :: "'f json list" where
    r: "spec_jobs e host urls n1 = Inr (ev2, m)"
    by (auto split: sum.splits)
  have "n1 \<le> n + 11" using spec_poll_bound [OF p] .
  moreover have "m \<le> n1 + 11 * length urls" using Cons.IH [OF r] .
  ultimately show ?case by simp
qed

lemma poll_job_bound:
  "(poll_job e host url 11 m :: exc + ('f json list option \<times> nat)) = Inr (r, m') \<Longrightarrow> m' \<le> m + 11"
proof (cases "find (\<lambda>i. poll_state_at e url (m + i) \<noteq> Pending) [0..<11]")
  case None
  assume "(poll_job e host url 11 m :: exc + ('f json list option \<times> nat)) = Inr (r, m')"
  then show ?thesis using None unfolding poll_job_spec by simp
next
  case (Some i)
  assume a: "(poll_job e host url 11 m :: exc + ('f json list option \<times> nat)) = Inr (r, m')"
  have "i \<in> set [0..<11]" using Some find_Some_mem by fastforce
  then have "i < 11" by simp
  then show ?thesis using a Some unfolding poll_job_spec
    by (auto split: poll_state.splits)
qed

lemma keeps_entry_code [code]:
  "keeps_entry entry =
     ((case dict_get (attrib entry) ''logid'' of None \<Rightarrow> False | Some logid \<Rightarrow> logid \<noteq> []) \<and>
      (lower (findtext entry ''severity'' []) = ''high'' \<or>
       lower (findtext entry ''severity'' []) = ''critical''))"
  by (auto simp: keeps_entry_def split: option.splits)

text \<open>
  Claim C1, as the code has it. The job-polling strategy follows the protocol: after the
  submission it takes the jobs named by the \<open>job\<close> elements of the response in order and
  polls each at most 11 times. A job still pending after 11 polls is left and adds
  nothing, and the next job is polled; a job found finished adds the records of the kept
  entries of that status document; a poll that fails (the request fails or the body does
  not parse) is raised, and with it the records of the jobs already finished are not
  returned.
\<close>

theorem job_polling_follows_protocol:
  "(custom_GET_api_threat_traffic e api_url n :: exc + ('f json list \<times> nat)) =
     spec_strategy e api_url n \<and>
   ((spec_jobs e host urls m :: exc + ('f json list \<times> nat)) = Inr (events, m') \<longrightarrow>
      m' \<le> m + 11 * length urls) \<and>
   ((poll_job e host url 11 m :: exc + ('f json list option \<times> nat)) = Inr (r, m'') \<longrightarrow>
      m'' \<le> m + 11) \<and>
   ((\<forall>i<11. poll_state_at e url (m + i) = Pending) \<longrightarrow>
      (poll_job e host url 11 m :: exc + ('f json list option \<times> nat)) = Inr (None, m + 11) \<and>
      (process_jobs e host (url # rest) evs0 m :: exc + ('f json list \<times> nat)) =
        process_jobs e host rest evs0 (m + 11)) \<and>
   (\<forall>c d. c < 11 \<and> (\<forall>i<c. poll_state_at e url (m + i) = Pending) \<and>
          poll_state_at e url (m + c) = Finished d \<longrightarrow>
      (poll_job e host url 11 m :: exc + ('f json list option \<times> nat)) =
        Inr (Some (kept_records (str_capitalize e) host d), m + c + 1) \<and>
      (process_jobs e host (url # rest) evs0 m :: exc + ('f json list \<times> nat)) =
        process_jobs e host rest (evs0 @ kept_records (str_capitalize e) host d) (m + c + 1)) \<and>
   (\<forall>c err. c < 11 \<and> (\<forall>i<c. poll_state_at e url (m + i) = Pending) \<and>
          poll_state_at e url (m + c) = Failed err \<longrightarrow>
      (poll_job e host url 11 m :: exc + ('f json list option \<times> nat)) = Inl err \<and>
      (process_jobs e host (url # rest) evs0 m :: exc + ('f json list \<times> nat)) = Inl err)"
proof -
  note run = poll_job_spec [of e host url 11 m, where ?'f = 'f]
  have bound1: "(spec_jobs e host urls m :: exc + ('f json list \<times> nat)) = Inr (events, m') \<longrightarrow>
      m' \<le> m + 11 * length urls"
    using spec_jobs_bound by blast
  have bound2: "(poll_job e host url 11 m :: exc + ('f json list option \<times> nat)) = Inr (r, m'') \<longrightarrow>
      m'' \<le> m + 11"
    using poll_job_bound by blast
  have pending: "(\<forall>i<11. poll_state_at e url (m + i) = Pending) \<longrightarrow>
      (poll_job e host url 11 m :: exc + ('f json list option \<times> nat)) = Inr (None, m + 11) \<and>
      (process_jobs e host (url # rest) evs0 m :: exc + ('f json list \<times> nat)) =
        process_jobs e host rest evs0 (m + 11)"
  proof
    assume "\<forall>i<11. poll_state_at e url (m + i) = Pending"
    then have "find (\<lambda>i. poll_state_at e url (m + i) \<noteq> Pending) [0..<11] = None"
      by (intro find_upt_none) simp
    then have p: "(poll_job e host url 11 m :: exc + ('f json list option \<times> nat)) = Inr (None, m + 11)"
      unfolding run by simp
    then show "(poll_job e host url 11 m :: exc + ('f json list option \<times> nat)) = Inr (None, m + 11) \<and>
      (process_jobs e host (url # rest) evs0 m :: exc + ('f json list \<times> nat)) =
        process_jobs e host rest evs0 (m + 11)"
      by simp
  qed
  have finished: "\<forall>c d. c < 11 \<and> (\<forall>i<c. poll_state_at e url (m + i) = Pending) \<and>
          poll_state_at e url (m + c) = Finished d \<longrightarrow>
      (poll_job e host url 11 m :: exc + ('f json list option \<times> nat)) =
        Inr (Some (kept_records (str_capitalize e) host d), m + c + 1) \<and>
      (process_jobs e host (url # rest) evs0 m :: exc + ('f json list \<times> nat)) =
        process_jobs e host rest (evs0 @ kept_records (str_capitalize e) host d) (m + c + 1)"
  proof (intro allI impI)
    fix c d
    assume h: "c < 11 \<and> (\<forall>i<c. poll_state_at e url (m + i) = Pending) \<and>
          poll_state_at e url (m + c) = Finished d"
    then have "find (\<lambda>i. poll_state_at e url (m + i) \<noteq> Pending) [0..<11] = Some c"
      by (intro find_upt_first) simp_all
    then have p: "(poll_job e host url 11 m :: exc + ('f json list option \<times> nat)) =
        Inr (Some (kept_records (str_capitalize e) host d), m + c + 1)"
      unfolding run using h by simp
    then show "(poll_job e host url 11 m :: exc + ('f json list option \<times> nat)) =
        Inr (Some (kept_records (str_capitalize e) host d), m + c + 1) \<and>
      (process_jobs e host (url # rest) evs0 m :: exc + ('f json list \<times> nat)) =
        process_jobs e host rest (evs0 @ kept_records (str_capitalize e) host d) (m + c + 1)"
      by simp
  qed
  have failed: "\<forall>c err. c < 11 \<and> (\<forall>i<c. poll_state_at e url (m + i) = Pending) \<and>
          poll_state_at e url (m + c) = Failed err \<longrightarrow>
      (poll_job e host url 11 m :: exc + ('f json list option \<times> nat)) = Inl err \<and>
      (process_jobs e host (url # rest) evs0 m :: exc + ('f json list \<times> nat)) = Inl err"
  proof (intro allI impI)
    fix c err
    assume h: "c < 11 \<and> (\<forall>i<c. poll_state_at e url (m + i) = Pending) \<and>
          poll_state_at e url (m + c) = Failed err"
    then have "find (\<lambda>i. poll_state_at e url (m + i) \<noteq> Pending) [0..<11] = Some c"
      by (intro find_upt_first) simp_all
    then have p: "(poll_job e host url 11 m :: exc + ('f json list option \<times> nat)) = Inl err"
      unfolding run using h by simp
    then show "(poll_job e host url 11 m :: exc + ('f json list option \<times> nat)) = Inl err \<and>
      (process_jobs e host (url # rest) evs0 m :: exc + ('f json list \<times> nat)) = Inl err"
      by simp
  qed
  show ?thesis
    using custom_GET_spec [of e api_url n, where ?'f = 'f] bound1 bound2 pending finished failed
    by blast
qed

lemma example_job1_pending:
  "poll_state_at example_env ''https://10.0.0.5/api/?type=log&action=get&job-id=1&key=K'' m =
     Pending"
  by (simp add: poll_state_at_def get_checked_def example_env_def example_parser_def
      example_act_doc_def findtext_job_status_def)

lemma example_job2_finished:
  "poll_state_at example_env ''https://10.0.0.5/api/?type=log&action=get&job-id=2&key=K'' m =
     Finished example_fin_doc"
  by (simp add: poll_state_at_def get_checked_def example_env_def example_parser_def
      example_fin_doc_def findtext_job_status_def)

lemma example_failing_job2:
  "poll_state_at example_failing_env
     ''https://10.0.0.5/api/?type=log&action=get&job-id=2&key=K'' m =
     Failed (RequestException ''HTTPError'')"
  by (simp add: poll_state_at_def get_checked_def example_failing_env_def example_env_def)

lemma example_kept_records:
  "kept_records example_capitalize (Some ''10.0.0.5'') example_fin_doc =
     [make_event example_capitalize (Some ''10.0.0.5'') ''1'' ''High'' example_entry_high
        :: int json]"
  by code_simp

lemma example_spec_strategy:
  "(spec_strategy example_env ''https://10.0.0.5/api/?key=K'' 0 :: exc + (int json list \<times> nat)) =
     Inr ([make_event example_capitalize (Some ''10.0.0.5'') ''1'' ''High'' example_entry_high],
          13)"
  by code_simp

theorem job_polling_follows_protocol_witness:
  "(custom_GET_api_threat_traffic example_env ''https://10.0.0.5/api/?key=K'' 0
      :: exc + (int json list \<times> nat)) =
     Inr ([make_event example_capitalize (Some ''10.0.0.5'') ''1'' ''High'' example_entry_high],
          13) \<and>
   (poll_job example_env (Some ''10.0.0.5'')
      ''https://10.0.0.5/api/?type=log&action=get&job-id=1&key=K'' 11 1
      :: exc + (int json list option \<times> nat)) = Inr (None, 12) \<and>
   (poll_job example_env (Some ''10.0.0.5'')
      ''https://10.0.0.5/api/?type=log&action=get&job-id=2&key=K'' 11 12
      :: exc + (int json list option \<times> nat)) =
     Inr (Some [make_event example_capitalize (Some ''10.0.0.5'') ''1'' ''High''
                  example_entry_high], 13) \<and>
   (poll_job example_failing_env (Some ''10.0.0.5'')
      ''https://10.0.0.5/api/?type=log&action=get&job-id=2&key=K'' 11 2
      :: exc + (int json list option \<times> nat)) = Inl (RequestException ''HTTPError'')"
proof -
  let ?u1 = "''https://10.0.0.5/api/?type=log&action=get&job-id=1&key=K''"
  let ?u2 = "''https://10.0.0.5/api/?type=log&action=get&job-id=2&key=K''"
  let ?h = "Some ''10.0.0.5''"
  let ?url = "''https://10.0.0.5/api/?key=K''"
  have a: "(custom_GET_api_threat_traffic example_env ?url 0 :: exc + (int json list \<times> nat)) =
     Inr ([make_event example_capitalize ?h ''1'' ''High'' example_entry_high], 13)"
    using job_polling_follows_protocol [where ?'f = int and e = example_env and api_url = ?url
        and n = 0]
    unfolding example_spec_strategy by blast
  have n1: "\<forall>i<11. poll_state_at example_env ?u1 (1 + i) = Pending"
    using example_job1_pending by blast
  have b: "(poll_job example_env ?h ?u1 11 1 :: exc + (int json list option \<times> nat)) =
             Inr (None, 12)"
    using job_polling_follows_protocol [where ?'f = int and e = example_env and host = ?h
        and url = ?u1 and m = 1] n1
    by simp
  have f2: "(0::nat) < 11 \<and> (\<forall>i<0. poll_state_at example_env ?u2 (12 + i) = Pending) \<and>
      poll_state_at example_env ?u2 (12 + 0) = Finished example_fin_doc"
    using example_job2_finished [of "12 + 0"] by simp
  have c0: "(poll_job example_env ?h ?u2 11 12 :: exc + (int json list option \<times> nat)) =
             Inr (Some (kept_records (str_capitalize example_env) ?h example_fin_doc), 12 + 0 + 1)"
    using job_polling_follows_protocol [where ?'f = int and e = example_env and host = ?h
        and url = ?u2 and m = 12] f2
    by blast
  have cap: "str_capitalize example_env = example_capitalize" by (simp add: example_env_def)
  have c: "(poll_job example_env ?h ?u2 11 12 :: exc + (int json list option \<times> nat)) =
     Inr (Some [make_event example_capitalize ?h ''1'' ''High'' example_entry_high], 13)"
    using c0 unfolding cap example_kept_records by simp
  have f3: "(0::nat) < 11 \<and> (\<forall>i<0. poll_state_at example_failing_env ?u2 (2 + i) = Pending) \<and>
      poll_state_at example_failing_env ?u2 (2 + 0) = Failed (RequestException ''HTTPError'')"
    using example_failing_job2 [of "2 + 0"] by simp
  have d: "(poll_job example_failing_env ?h ?u2 11 2 :: exc + (int json list option \<times> nat)) =
             Inl (RequestException ''HTTPError'')"
    using job_polling_follows_protocol [where ?'f = int and e = example_failing_env
        and host = ?h and url = ?u2 and m = 2] f3
    by blast
  show ?thesis using a b c d by blast
qed

theorem finished_job_lost_counterexample:
  "(poll_job example_failing_env (Some ''10.0.0.5'')
      ''https://10.0.0.5/api/?type=log&action=get&job-id=1&key=K'' 11 1
      :: exc + (int json list option \<times> nat)) =
     Inr (Some [make_event example_capitalize (Some ''10.0.0.5'') ''1'' ''High''
                  example_entry_high], 2) \<and>
   (custom_GET_api_threat_traffic example_failing_env ''https://10.0.0.5/api/?key=K'' 0
      :: exc + (int json list \<times> nat)) = Inl (RequestException ''HTTPError'')"
  by code_simp

section \<open>Properties of the orchestrator\<close>

subsection \<open>The tally of the fan-out\<close>

lemma collect_result_step:
  "collect_result (t, s, f) res =
     (t + counted res, s + (if succeeded res then 1 else 0), f + (if succeeded res then 0 else 1))"
  by (auto simp: collect_result_def succeeded_def counted_def split: sum.splits)

lemma foldl_collect_result:
  "foldl collect_result (t, s, f) rs =
     (t + sum_list (map counted rs), s + length (filter succeeded rs),
      f + length (filter (\<lambda>r. \<not> succeeded r) rs))"
proof (induction rs arbitrary: t s f)
  case Nil
  show ?case by simp
next
  case (Cons r rs)
  show ?case by (simp add: collect_result_step Cons.IH)
qed

lemma succeeded_future_result:
  "succeeded (future_result escaped body h) = (\<not> host_failed escaped body h)"
  by (auto simp: succeeded_def future_result_def host_failed_def host_outcome_def
      split: option.splits sum.splits)

lemma counted_future_result:
  "counted (future_result escaped body h) =
     (if host_failed escaped body h then 0 else emitted_count body h)"
  by (auto simp: counted_def future_result_def host_failed_def host_outcome_def
      emitted_count_def split: option.splits sum.splits)

lemma sum_list_if_filter:
  "sum_list (map (\<lambda>h. if P h then 0 else g h) xs) = sum_list (map g (filter (\<lambda>h. \<not> P h) xs))"
  by (induction xs) auto

lemma length_filter_perm: "mset xs = mset ys \<Longrightarrow> length (filter P xs) = length (filter P ys)"
proof -
  assume "mset xs = mset ys"
  then have "mset (filter P xs) = mset (filter P ys)" by (simp only: mset_filter)
  then show ?thesis by (metis size_mset)
qed

lemma sum_list_perm: "mset xs = mset ys \<Longrightarrow> sum_list (map g xs) = sum_list (map (g :: 'a \<Rightarrow> nat) ys)"
proof -
  assume "mset xs = mset ys"
  then have "mset (map g xs) = mset (map g ys)" by (metis mset_map)
  then show ?thesis by (metis sum_mset_sum_list)
qed

lemma length_filter_split: "length (filter (\<lambda>x. \<not> P x) xs) = length xs - length (filter P xs)"
  using sum_length_filter_compl [of P xs] by simp

text \<open>
  Claim C7. Whatever the order in which the hosts complete, the collection loop ends with
  the tally: the hosts during whose processing no exception was raised are the successful
  ones, the others the failed ones, and the event total is the sum of the counts of the
  successful hosts. An exception is a result of a host, never of the loop.
\<close>

theorem fan_out_tally:
  assumes "mset order = mset hosts"
  shows "stream_events_tally (map (future_result escaped body) order) =
           (sum_list (map (emitted_count body)
                        (filter (\<lambda>h. \<not> host_failed escaped body h) hosts)),
            length hosts - length (filter (host_failed escaped body) hosts),
            length (filter (host_failed escaped body) hosts))"
proof -
  let ?rs = "map (future_result escaped body) order"
  have t: "sum_list (map counted ?rs) =
             sum_list (map (emitted_count body)
                        (filter (\<lambda>h. \<not> host_failed escaped body h) hosts))"
  proof -
    have "sum_list (map counted ?rs) =
            sum_list (map (\<lambda>h. if host_failed escaped body h then 0 else emitted_count body h) order)"
      by (simp add: comp_def counted_future_result)
    also have "\<dots> = sum_list (map (\<lambda>h. if host_failed escaped body h then 0 else emitted_count body h) hosts)"
      using assms by (rule sum_list_perm)
    finally show ?thesis by (simp only: sum_list_if_filter)
  qed
  have f: "length (filter (\<lambda>r. \<not> succeeded r) ?rs) =
             length (filter (host_failed escaped body) hosts)"
  proof -
    have "length (filter (\<lambda>r. \<not> succeeded r) ?rs) = length (filter (host_failed escaped body) order)"
      by (simp add: filter_map comp_def succeeded_future_result)
    then show ?thesis using length_filter_perm [OF assms] by simp
  qed
  have s: "length (filter succeeded ?rs) =
             length hosts - length (filter (host_failed escaped body) hosts)"
  proof -
    have "length (filter succeeded ?rs) =
            length (filter (\<lambda>h. \<not> host_failed escaped body h) order)"
      by (simp add: filter_map comp_def succeeded_future_result)
    also have "\<dots> = length (filter (\<lambda>h. \<not> host_failed escaped body h) hosts)"
      using assms by (rule length_filter_perm)
    finally show ?thesis by (simp only: length_filter_split)
  qed
  show ?thesis
    unfolding stream_events_tally_def foldl_collect_result t f s by simp
qed

theorem fan_out_tally_witness:
  "stream_events_tally
     (map (future_result (\<lambda>h. None)
             (\<lambda>h. if h = ''10.0.0.6'' then Inl (OtherException ''boom'')
                   else if h = ''10.0.0.5'' then Inr 3 else Inr 2))
        [''10.0.0.7'', ''10.0.0.5'', ''10.0.0.6'']) = (5, 2, 1)"
proof -
  let ?body = "\<lambda>h. if h = ''10.0.0.6'' then Inl (OtherException ''boom'')
                   else if h = ''10.0.0.5'' then Inr 3 else (Inr 2 :: exc + nat)"
  have perm: "mset [''10.0.0.7'', ''10.0.0.5'', ''10.0.0.6''] =
              mset [''10.0.0.5'', ''10.0.0.6'', ''10.0.0.7'']"
    by (simp add: add_mset_commute)
  from fan_out_tally [OF perm, of "\<lambda>h. None" ?body]
  show ?thesis by (simp add: host_failed_def emitted_count_def)
qed

subsection \<open>What is written for a record of the job-polling strategy\<close>

lemma record_xml_text_make_event:
  "record_xml_text sv (make_event capitalize h logid severity entry) =
     Inr (json_dumps sv (make_event capitalize h logid severity entry))"
  by (simp add: record_xml_text_def make_event_def dict_get_def)

text \<open>
  Claim C8 on the code. A record of the job-polling strategy has no \<open>_raw\<close> field, so in
  record mode it is serialised with \<open>json.dumps\<close> and that text is given to
  \<open>xml_to_json\<close>; when the XML parser rejects the text, as it does for the serialisation of
  a dictionary, the payload written is the error record of the endpoint and host: none
  of the fields of the kept entry is in it.
\<close>

theorem polled_record_written_as_parse_error:
  assumes "et_fromstring (device sv host endpoint_name)
             (json_dumps sv (make_event capitalize h logid severity entry)) = Inl msg"
  shows "write_events sv endpoint_name host index sourcetype
           [make_event capitalize h logid severity entry] written =
         (written @
            [new_event
               (json_dumps sv
                  (JDict [(''endpoint'', JStr endpoint_name), (''host'', JStr host),
                          (''error'', JStr (''XML parsing failed: '' @ msg))]))
               index sourcetype endpoint_name host],
          None)"
  using assms by (simp add: record_xml_text_make_event xml_to_json_def Let_def)

lemma example_dumps_event:
  "example_dumps (make_event capitalize h logid severity entry) = ''{...}''"
  by (simp add: example_dumps_def make_event_def dict_get_def)

theorem polled_record_written_as_parse_error_witness:
  "write_events example_services ''threats'' ''10.0.0.5'' (Some ''main'') ''pan:log''
     [make_event example_capitalize (Some ''10.0.0.5'') ''1'' ''High'' example_entry_high] [] =
   ([\<lparr>ev_data = ''{error: XML parsing failed: syntax error: line 1, column 0}'',
      ev_index = Some ''main'', ev_sourcetype = ''pan:log'',
      ev_source = ''palo_alto:threats'', ev_host = ''10.0.0.5''\<rparr>], None)"
proof -
  let ?ev = "make_event example_capitalize (Some ''10.0.0.5'') ''1'' ''High'' example_entry_high :: int json"
  have h: "et_fromstring (device example_services ''10.0.0.5'' ''threats'')
             (json_dumps example_services ?ev) = Inl ''syntax error: line 1, column 0''"
    by (simp add: example_services_def example_env_def example_dumps_event example_parser_def)
  have d: "json_dumps example_services
             (JDict [(''endpoint'', JStr ''threats''), (''host'', JStr ''10.0.0.5''),
                     (''error'', JStr (''XML parsing failed: '' @ ''syntax error: line 1, column 0''))])
           = ''{error: XML parsing failed: syntax error: line 1, column 0}''"
    by (simp add: example_services_def example_dumps_def dict_get_def)
  from polled_record_written_as_parse_error [OF h, of "Some ''main''" "''pan:log''" "[]"]
  show ?thesis unfolding d by (simp add: new_event_def)
qed

lemma example_host_run:
  "process_host_endpoints example_services ''10.0.0.5'' ''K'' [''threats''] (Some ''main'')
     ''pan:log'' ''events'' [] =
   ((''10.0.0.5'', 1, True),
    [\<lparr>ev_data = ''{error: XML parsing failed: syntax error: line 1, column 0}'',
      ev_index = Some ''main'', ev_sourcetype = ''pan:log'',
      ev_source = ''palo_alto:threats'', ev_host = ''10.0.0.5''\<rparr>])"
  by code_simp

end
